theory Spec2Isabelle
  imports Main "HOL-Library.Char_ord" "HOL-Library.List_Lexorder" "HOL-Library.Word"
begin

section \<open>The data model of \<^verbatim>\<open>nodejs.go\<close>\<close>

text \<open>
  The translator is written in Go. Its functions return a triple
  \<^verbatim>\<open>(string, ast.Type, error)\<close>; the model returns exactly that triple (the Go
  \<^verbatim>\<open>error\<close> is an \<open>error option\<close>, \<open>None\<close> for \<^verbatim>\<open>nil\<close>), wrapped in an
  \<open>outcome\<close> that separates a normal return from a run-time panic, which aborts the
  process and returns nothing.
\<close>

subsection \<open>Lattice types (\<^verbatim>\<open>ast.Type\<close> of HIL) and schema value types\<close>

datatype ast_type =
  TypeInvalid | TypeAny | TypeBool | TypeFloat | TypeInt | TypeList | TypeMap
  | TypeString | TypeUnknown

datatype value_type =
  schema_TypeInvalid | schema_TypeBool | schema_TypeInt | schema_TypeFloat
  | schema_TypeString | schema_TypeList | schema_TypeMap | schema_TypeSet
  | schema_typeObject

subsection \<open>The three schema views\<close>

text \<open>
  \<^verbatim>\<open>schema.Schema\<close> has a declared type and an \<^verbatim>\<open>Elem interface{}\<close> that holds a
  \<^verbatim>\<open>*schema.Schema\<close>, a \<^verbatim>\<open>*schema.Resource\<close>, nothing, or something else.
  \<^verbatim>\<open>schema.Resource\<close> holds \<^verbatim>\<open>Schema map[string]*Schema\<close>. The maps are only ever
  looked up by key, so they are association lists read with \<open>map_of\<close>; a \<^verbatim>\<open>nil\<close> map
  and an empty map both look every key up to \<^verbatim>\<open>nil\<close>, and so does a stored
  \<^verbatim>\<open>nil\<close> pointer.
\<close>

datatype tf_schema =
  Schema (schema_Type: value_type) (schema_Elem: schema_elem) (schema_MaxItems: int)
and schema_elem =
  ElemNil | ElemSchema tf_schema | ElemResource tf_resource | ElemOther
and tf_resource =
  Resource (resource_Schema: "(string \<times> tf_schema) list")

text \<open>\<^verbatim>\<open>tfbridge.SchemaInfo\<close>: the target-side override.\<close>

datatype schema_info =
  SchemaInfo (info_Name: string) (info_Fields: "(string \<times> schema_info) list")
    (info_Elem: "schema_info option") (info_MaxItemsOne: "bool option")

record schemas =
  tf :: "tf_schema option"
  tfRes :: "tf_resource option"
  pulumi :: "schema_info option"

definition no_schemas :: schemas where
  "no_schemas = \<lparr>tf = None, tfRes = None, pulumi = None\<rparr>"

subsection \<open>Schema accessor\<close>

definition propertySchemas :: "schemas \<Rightarrow> string \<Rightarrow> schemas" where
  "propertySchemas s key =
     (let propTf = (case tfRes s of
                      None \<Rightarrow> None
                    | Some r \<Rightarrow> map_of (resource_Schema r) key);
          propRes = (case propTf of
                       None \<Rightarrow> None
                     | Some t \<Rightarrow> (case schema_Elem t of
                                   ElemResource r \<Rightarrow> Some r
                                 | _ \<Rightarrow> None));
          propPulumi = (case pulumi s of
                          None \<Rightarrow> None
                        | Some i \<Rightarrow> map_of (info_Fields i) key)
      in \<lparr>tf = propTf, tfRes = propRes, pulumi = propPulumi\<rparr>)"

definition elemSchemas :: "schemas \<Rightarrow> schemas" where
  "elemSchemas s =
     (let elemTf = (case tf s of
                      None \<Rightarrow> None
                    | Some t \<Rightarrow> (case schema_Elem t of
                                  ElemSchema e \<Rightarrow> Some e
                                | _ \<Rightarrow> None));
          elemRes = (case tf s of
                       None \<Rightarrow> None
                     | Some t \<Rightarrow> (case schema_Elem t of
                                   ElemResource e \<Rightarrow> Some e
                                 | _ \<Rightarrow> None));
          elemPulumi = (case pulumi s of
                          None \<Rightarrow> None
                        | Some i \<Rightarrow> info_Elem i)
      in \<lparr>tf = elemTf, tfRes = elemRes, pulumi = elemPulumi\<rparr>)"

definition astType :: "schemas \<Rightarrow> ast_type" where
  "astType s =
     (case tf s of
        Some t \<Rightarrow>
          (case schema_Type t of
             schema_TypeBool \<Rightarrow> TypeBool
           | schema_TypeInt \<Rightarrow> TypeFloat
           | schema_TypeFloat \<Rightarrow> TypeFloat
           | schema_TypeString \<Rightarrow> TypeString
           | schema_TypeList \<Rightarrow> TypeList
           | schema_TypeSet \<Rightarrow> TypeList
           | schema_TypeMap \<Rightarrow> TypeMap
           | _ \<Rightarrow> TypeUnknown)
      | None \<Rightarrow>
          (case tfRes s of
             Some r \<Rightarrow> TypeMap
           | None \<Rightarrow> TypeUnknown))"

subsection \<open>Strings\<close>

text \<open>
  Go strings are byte sequences. The three characters the code looks for are ASCII, so
  on valid UTF-8 the rune-wise \<^verbatim>\<open>strings.Map\<close> and \<^verbatim>\<open>strings.ContainsAny\<close> act
  byte by byte.
\<close>

definition strings_ContainsAny :: "string \<Rightarrow> string \<Rightarrow> bool" where
  "strings_ContainsAny s chars = (set s \<inter> set chars \<noteq> {})"

definition underscore_rune :: "char \<Rightarrow> char" where
  "underscore_rune r =
     (if r = CHR '' '' \<or> r = CHR ''-'' \<or> r = CHR ''.'' then CHR ''_'' else r)"

fun strings_Join :: "string list \<Rightarrow> string \<Rightarrow> string" where
  "strings_Join [] sep = ''''"
| "strings_Join [x] sep = x"
| "strings_Join (x # y # ys) sep = x @ sep @ strings_Join (y # ys) sep"

text \<open>\<^verbatim>\<open>strings.Split(s, ".")\<close>, for a separator of one character.\<close>

fun strings_Split :: "string \<Rightarrow> char \<Rightarrow> string list" where
  "strings_Split [] sep = [[]]"
| "strings_Split (c # cs) sep =
     (if c = sep then [] # strings_Split cs sep
      else (case strings_Split cs sep of
              [] \<Rightarrow> [[c]]
            | w # ws \<Rightarrow> (c # w) # ws))"

definition resName :: "string \<Rightarrow> string \<Rightarrow> string" where
  "resName typ name =
     (let n = typ @ ''_'' @ name
      in if strings_ContainsAny n '' -.'' then map underscore_rune n else n)"

subsection \<open>Type coercion\<close>

definition coerceProperty :: "string \<Rightarrow> ast_type \<Rightarrow> ast_type \<Rightarrow> string" where
  "coerceProperty val valueType propertyType =
     (if valueType = propertyType \<or> valueType \<noteq> TypeString then val
      else (case propertyType of
              TypeBool \<Rightarrow>
                (if val = ''\"true\"'' then ''true''
                 else if val = ''\"false\"'' then ''false''
                 else ''('' @ val @ '' === \"true\")'')
            | TypeInt \<Rightarrow> ''Number.parseFloat('' @ val @ '')''
            | TypeFloat \<Rightarrow> ''Number.parseFloat('' @ val @ '')''
            | _ \<Rightarrow> val))"

subsection \<open>Outcomes, errors and graph nodes\<close>

text \<open>
  A panic (a failed \<^verbatim>\<open>contract\<close> assertion, a \<^verbatim>\<open>nil\<close> dereference, an index out
  of range, a call of \<^verbatim>\<open>reflect.Value.Type\<close> on the zero Value) aborts the process.
\<close>

datatype panic = AssertionFailure | NilDereference | IndexOutOfRange | ReflectZeroValue

datatype 'a outcome = Returns 'a | Panics panic

text \<open>
  Graph nodes are Go pointers compared by identity; a node is its kind (the dynamic type
  the type switches test) and an identity.
\<close>

datatype node =
  VariableNode nat | LocalNode nat | ResourceNode nat | OutputNode nat | ProviderNode nat

text \<open>One constructor for each error the code builds; \<open>ExternalError\<close> is an error
  returned by a collaborator (an emission hook, the variable parser).\<close>

datatype error =
  NYI string
  | NYI_call string
  | UnexpectedLiteralType ast_type
  | UnknownResource string
  | UnknownVariable string
  | UnexpectedVariableType
  | UnexpectedHILNodeType
  | ExpectedAtMostOneItem
  | UnsupportedProviderDependency node
  | UnexpectedNodeType node
  | UnsatisfiedDependency node
  | ExternalError string

subsection \<open>The expression AST and raw configuration values\<close>

datatype scalar =
  SBool bool | SInt "64 word" | SFloat64 "64 word" | SString string | SOther

datatype arithmetic_op =
  ArithmeticOpInvalid | ArithmeticOpAdd | ArithmeticOpSub | ArithmeticOpMul
  | ArithmeticOpDiv | ArithmeticOpMod | ArithmeticOpLogicalAnd | ArithmeticOpLogicalOr
  | ArithmeticOpEqual | ArithmeticOpNotEqual | ArithmeticOpLessThan
  | ArithmeticOpLessThanOrEqual | ArithmeticOpGreaterThan
  | ArithmeticOpGreaterThanOrEqual

text \<open>\<open>OtherNode\<close> is any \<^verbatim>\<open>ast.Node\<close> the type switch of \<^verbatim>\<open>walkNode\<close> does not list.\<close>

datatype ast_node =
  Arithmetic arithmetic_op "ast_node list"
  | Call string "ast_node list"
  | Conditional ast_node ast_node ast_node
  | Index ast_node ast_node
  | LiteralNode scalar ast_type
  | Output "ast_node list"
  | VariableAccess string
  | OtherNode

text \<open>
  The reflect kinds that \<^verbatim>\<open>computeProperty\<close> has no case for. (\<^verbatim>\<open>Invalid\<close>, the kind
  of \<^verbatim>\<open>nil\<close>, is \<open>VNil\<close> below.)
\<close>

datatype reflect_kind =
  reflect_Int8 | reflect_Int16 | reflect_Int32 | reflect_Int64
  | reflect_Uint | reflect_Uint8 | reflect_Uint16 | reflect_Uint32 | reflect_Uint64
  | reflect_Uintptr | reflect_Float32 | reflect_Complex64 | reflect_Complex128
  | reflect_Array | reflect_Chan | reflect_Func | reflect_Interface | reflect_Ptr
  | reflect_Struct | reflect_UnsafePointer

text \<open>
  An \<^verbatim>\<open>interface{}\<close> value of the configuration. A Go map has unique keys and no
  iteration order of its own: \<open>VMap\<close> holds the entries in the order one iteration
  would produce them, and the code may only depend on it through what it does with it.
  Slices and maps are \<^verbatim>\<open>[]interface{}\<close> and \<^verbatim>\<open>map[string]interface{}\<close>, the types
  the code asserts them to have.
\<close>

datatype go_value =
  VNil
  | VNode ast_node
  | VBool bool
  | VInt "64 word"
  | VFloat64 "64 word"
  | VString string
  | VSlice "go_value list"
  | VMap "(string \<times> go_value) list"
  | VOther reflect_kind

subsection \<open>Interpolated variables (\<^verbatim>\<open>terraform/config\<close>)\<close>

datatype resource_mode = ManagedResourceMode | DataResourceMode

record resourceVariable =
  rv_Mode :: resource_mode
  rv_Type :: string
  rv_Name :: string
  rv_Field :: string
  rv_Multi :: bool

datatype interpolated_variable =
  CountVariable
  | LocalVariable
  | ModuleVariable
  | PathVariable
  | ResourceVariable resourceVariable
  | SelfVariable
  | SimpleVariable
  | TerraformVariable
  | UserVariable (uv_Name: string) (uv_Elem: string)
  | OtherVariable

subsection \<open>External collaborators\<close>

text \<open>
  Functions of other packages (\<^verbatim>\<open>tfbridge\<close>, \<^verbatim>\<open>terraform/config\<close>, \<^verbatim>\<open>fmt\<close>) that
  the code calls. They are parameters of the model: every theorem holds for whatever
  they compute. \<^verbatim>\<open>tfbridge.TerraformToPulumiName\<close> asserts on the names it is given (it
  aborts on a doubled underscore), so it returns a name or panics. \<open>Sprintf_v\<close> and
  \<open>Sprintf_q\<close> are \<^verbatim>\<open>fmt.Sprintf\<close> with the verbs \<^verbatim>\<open>%v\<close> and \<^verbatim>\<open>%q\<close>.
\<close>

record extern =
  TerraformToPulumiName :: "string \<Rightarrow> tf_schema option \<Rightarrow> bool \<Rightarrow> string outcome"
  IsMaxItemsOne :: "tf_schema option \<Rightarrow> schema_info option \<Rightarrow> bool"
  NewInterpolatedVariable :: "string \<Rightarrow> error + interpolated_variable"
  ResourceId :: "resourceVariable \<Rightarrow> string"
  Sprintf_v :: "scalar \<Rightarrow> string"
  Sprintf_q :: "scalar \<Rightarrow> string"

subsection \<open>The node graph\<close>

text \<open>
  The graph type is declared outside this file. The code uses it in two ways: it
  iterates over \<^verbatim>\<open>g.providers\<close>, \<^verbatim>\<open>g.variables\<close>, \<^verbatim>\<open>g.locals\<close>, \<^verbatim>\<open>g.resources\<close> and
  \<^verbatim>\<open>g.outputs\<close> (the five lists below, in the order of that iteration), and it looks
  a resource or a variable up by key (\<open>resource_at\<close>, \<open>variable_at\<close>).
  \<open>dependencies\<close> is the \<^verbatim>\<open>deps\<close> field of a node, which \<^verbatim>\<open>n.dependencies()\<close>
  returns. Of a resource node the expression compiler reads \<^verbatim>\<open>r.provider.info\<close>
  only, of a variable node its default value (\<open>VNil\<close> for none).
\<close>

record resourceInfo =
  resinfo_Tok :: string
  resinfo_Fields :: "(string \<times> schema_info) list"

record providerInfo =
  provider_P :: "(string \<times> tf_resource) list option"
  provider_Resources :: "(string \<times> resourceInfo) list"

record resourceNode =
  provider_info :: "providerInfo option"

record variableNode =
  defaultValue :: go_value

record graph =
  providers :: "nat list"
  variables :: "nat list"
  locals :: "nat list"
  resources :: "nat list"
  outputs :: "nat list"
  dependencies :: "node \<Rightarrow> node list"
  resource_at :: "string \<Rightarrow> resourceNode option"
  variable_at :: "string \<Rightarrow> variableNode option"

subsection \<open>Name translation\<close>

definition tsName ::
  "extern \<Rightarrow> string \<Rightarrow> tf_schema option \<Rightarrow> schema_info option \<Rightarrow> bool
     \<Rightarrow> string outcome" where
  "tsName ext tfName tfSchema schemaInfo isObjectKey =
     (case (case schemaInfo of
              None \<Rightarrow> None
            | Some i \<Rightarrow> (if info_Name i = '''' then None else Some (info_Name i))) of
        Some explicit \<Rightarrow> Returns explicit
      | None \<Rightarrow>
          (if strings_ContainsAny tfName '' -.'' then
             (if isObjectKey then Returns (''\"'' @ tfName @ ''\"'')
              else Returns (map underscore_rune tfName))
           else TerraformToPulumiName ext tfName tfSchema False))"

subsection \<open>Expression compiler\<close>

definition arithmetic_token :: "arithmetic_op \<Rightarrow> string" where
  "arithmetic_token op =
     (case op of
        ArithmeticOpAdd \<Rightarrow> ''+''
      | ArithmeticOpSub \<Rightarrow> ''-''
      | ArithmeticOpMul \<Rightarrow> ''*''
      | ArithmeticOpDiv \<Rightarrow> ''/''
      | ArithmeticOpMod \<Rightarrow> ''%''
      | ArithmeticOpLogicalAnd \<Rightarrow> ''&&''
      | ArithmeticOpLogicalOr \<Rightarrow> ''||''
      | ArithmeticOpEqual \<Rightarrow> ''===''
      | ArithmeticOpNotEqual \<Rightarrow> ''!==''
      | ArithmeticOpLessThan \<Rightarrow> ''<''
      | ArithmeticOpLessThanOrEqual \<Rightarrow> ''<=''
      | ArithmeticOpGreaterThan \<Rightarrow> ''>''
      | ArithmeticOpGreaterThanOrEqual \<Rightarrow> ''>=''
      | ArithmeticOpInvalid \<Rightarrow> '''')"

definition walkLiteral ::
  "extern \<Rightarrow> scalar \<Rightarrow> ast_type \<Rightarrow> (string \<times> ast_type \<times> error option) outcome" where
  "walkLiteral ext v typex =
     (case typex of
        TypeBool \<Rightarrow> Returns (Sprintf_v ext v, typex, None)
      | TypeInt \<Rightarrow> Returns (Sprintf_v ext v, typex, None)
      | TypeFloat \<Rightarrow> Returns (Sprintf_v ext v, typex, None)
      | TypeString \<Rightarrow> Returns (Sprintf_q ext v, typex, None)
      | _ \<Rightarrow> Returns ('''', TypeInvalid, Some (UnexpectedLiteralType typex)))"

text \<open>The loop over the dot-separated field path of a resource reference: the
  translated elements and the schema triple the walk ends on. A round derives the
  property schema, then translates the element, which may abort.\<close>

definition walkElements_step ::
  "string outcome \<Rightarrow> (string list \<times> schemas) outcome \<Rightarrow> (string list \<times> schemas) outcome" where
  "walkElements_step first others =
     (case first of
        Panics p \<Rightarrow> Panics p
      | Returns translated \<Rightarrow>
          (case others of
             Panics p \<Rightarrow> Panics p
           | Returns r \<Rightarrow> Returns (translated # fst r, snd r)))"

fun walkElements :: "extern \<Rightarrow> schemas \<Rightarrow> string list \<Rightarrow> (string list \<times> schemas) outcome" where
  "walkElements ext sch [] = Returns ([], sch)"
| "walkElements ext sch (e # es) =
     walkElements_step
       (TerraformToPulumiName ext e (tf (propertySchemas sch e)) False)
       (walkElements ext (propertySchemas sch e) es)"

text \<open>
  The schema triple of a resource, from its provider's registered metadata. With
  provider metadata present, \<^verbatim>\<open>info.P\<close> and the \<^verbatim>\<open>ResourceInfo\<close> registered for the
  type are dereferenced unguarded.
\<close>

definition resourceSchemas :: "resourceNode \<Rightarrow> string \<Rightarrow> schemas outcome" where
  "resourceSchemas r typ =
     (case provider_info r of
        None \<Rightarrow> Returns no_schemas
      | Some info \<Rightarrow>
          (case provider_P info of
             None \<Rightarrow> Panics NilDereference
           | Some resourcesMap \<Rightarrow>
               (case map_of (provider_Resources info) typ of
                  None \<Rightarrow> Panics NilDereference
                | Some resInfo \<Rightarrow>
                    Returns \<lparr>tf = None, tfRes = map_of resourcesMap typ,
                      pulumi = Some (SchemaInfo '''' (resinfo_Fields resInfo) None None)\<rparr>)))"

definition walkVariableAccess ::
  "extern \<Rightarrow> graph \<Rightarrow> string \<Rightarrow> (string \<times> ast_type \<times> error option) outcome" where
  "walkVariableAccess ext g name =
     (case NewInterpolatedVariable ext name of
        Inl err \<Rightarrow> Returns ('''', TypeInvalid, Some err)
      | Inr tfVar \<Rightarrow>
          (case tfVar of
             CountVariable \<Rightarrow> Returns ('''', TypeInvalid, Some (NYI ''count variables''))
           | LocalVariable \<Rightarrow> Returns ('''', TypeInvalid, Some (NYI ''local variables''))
           | ModuleVariable \<Rightarrow> Returns ('''', TypeInvalid, Some (NYI ''module variables''))
           | PathVariable \<Rightarrow> Returns ('''', TypeInvalid, Some (NYI ''path variables''))
           | ResourceVariable v \<Rightarrow>
               (if rv_Multi v then
                  Returns ('''', TypeInvalid, Some (NYI ''multi-resource variables''))
                else
                  (case resource_at g (ResourceId ext v) of
                     None \<Rightarrow>
                       Returns ('''', TypeInvalid, Some (UnknownResource (ResourceId ext v)))
                   | Some r \<Rightarrow>
                       (case resourceSchemas r (rv_Type v) of
                          Panics p \<Rightarrow> Panics p
                        | Returns sch \<Rightarrow>
                            (case walkElements ext sch
                                    (strings_Split (rv_Field v) CHR ''.'') of
                               Panics p \<Rightarrow> Panics p
                             | Returns walked \<Rightarrow>
                                 Returns
                                   (resName (rv_Type v) (rv_Name v) @ ''.''
                                      @ strings_Join (fst walked) ''.'',
                                    astType (snd walked), None)))))
           | SelfVariable \<Rightarrow> Returns ('''', TypeInvalid, Some (NYI ''self variables''))
           | SimpleVariable \<Rightarrow> Returns ('''', TypeInvalid, Some (NYI ''simple variables''))
           | TerraformVariable \<Rightarrow>
               Returns ('''', TypeInvalid, Some (NYI ''terraform variables''))
           | UserVariable vname velem \<Rightarrow>
               (if velem = '''' then
                  (case variable_at g vname of
                     None \<Rightarrow> Returns ('''', TypeInvalid, Some (UnknownVariable vname))
                   | Some vn \<Rightarrow>
                       (let typ = (case defaultValue vn of
                                     VNil \<Rightarrow> TypeString
                                   | VString s \<Rightarrow> TypeString
                                   | _ \<Rightarrow> TypeUnknown)
                        in (case TerraformToPulumiName ext vname None False of
                              Panics p \<Rightarrow> Panics p
                            | Returns translated \<Rightarrow> Returns (translated, typ, None))))
                else Returns ('''', TypeInvalid, Some (NYI ''user variable elements'')))
           | OtherVariable \<Rightarrow> Returns ('''', TypeInvalid, Some UnexpectedVariableType)))"

text \<open>
  Each \<^verbatim>\<open>walk\<close> method first walks its children and then renders. The rendering
  steps are written first, as functions of the children's outcomes; they look at a later
  outcome only when the earlier ones returned without error, as the early returns of the
  code do.
\<close>

definition walkNodes_step ::
  "(string \<times> ast_type \<times> error option) outcome
     \<Rightarrow> (string list \<times> ast_type list \<times> error option) outcome
     \<Rightarrow> (string list \<times> ast_type list \<times> error option) outcome" where
  "walkNodes_step first others =
     (case first of
        Panics p \<Rightarrow> Panics p
      | Returns (s, t, err) \<Rightarrow>
          (if err = None then
             (case others of
                Panics p \<Rightarrow> Panics p
              | Returns (strs, typs, err') \<Rightarrow>
                  (if err' = None then Returns (s # strs, t # typs, None)
                   else Returns ([], [], err')))
           else Returns ([], [], err)))"

definition renderArithmetic ::
  "arithmetic_op \<Rightarrow> (string list \<times> ast_type list \<times> error option) outcome
     \<Rightarrow> (string \<times> ast_type \<times> error option) outcome" where
  "renderArithmetic op walked =
     (case walked of
        Panics p \<Rightarrow> Panics p
      | Returns (strs, typs, err) \<Rightarrow>
          (if err = None then
             Returns (''('' @ strings_Join strs ('' '' @ arithmetic_token op @ '' '')
                        @ '')'', TypeFloat, None)
           else Returns ('''', TypeInvalid, err)))"

definition renderCall ::
  "string \<Rightarrow> (string list \<times> ast_type list \<times> error option) outcome
     \<Rightarrow> (string \<times> ast_type \<times> error option) outcome" where
  "renderCall func walked =
     (case walked of
        Panics p \<Rightarrow> Panics p
      | Returns (strs, typs, err) \<Rightarrow>
          (if err = None then
             (if func = ''file'' then
                (case strs of
                   [] \<Rightarrow> Panics IndexOutOfRange
                 | s0 # rest \<Rightarrow>
                     Returns (''fs.readFileSync('' @ s0 @ '', \"utf-8\")'', TypeString, None))
              else if func = ''lookup'' then
                (case strs of
                   [] \<Rightarrow> Panics IndexOutOfRange
                 | s0 # rest \<Rightarrow>
                     (case rest of
                        [] \<Rightarrow> Panics IndexOutOfRange
                      | s1 # rest' \<Rightarrow>
                          Returns (''(<any>'' @ s0 @ '')['' @ s1 @ '']''
                                     @ (case rest' of
                                          [s2] \<Rightarrow> '' || '' @ s2
                                        | _ \<Rightarrow> ''''),
                                   TypeUnknown, None)))
              else if func = ''split'' then
                (case strs of
                   [] \<Rightarrow> Panics IndexOutOfRange
                 | s0 # rest \<Rightarrow>
                     (case rest of
                        [] \<Rightarrow> Panics IndexOutOfRange
                      | s1 # rest' \<Rightarrow>
                          Returns (s1 @ ''.split('' @ s0 @ '')'', TypeList, None)))
              else Returns ('''', TypeInvalid, Some (NYI_call func)))
           else Returns ('''', TypeInvalid, err)))"

definition renderConditional ::
  "(string \<times> ast_type \<times> error option) outcome
     \<Rightarrow> (string \<times> ast_type \<times> error option) outcome
     \<Rightarrow> (string \<times> ast_type \<times> error option) outcome
     \<Rightarrow> (string \<times> ast_type \<times> error option) outcome" where
  "renderConditional wcond wtrue wfalse =
     (case wcond of
        Panics p \<Rightarrow> Panics p
      | Returns (cond, tc, err) \<Rightarrow>
          (if err = None then
             (case wtrue of
                Panics p \<Rightarrow> Panics p
              | Returns (ts, tt, err) \<Rightarrow>
                  (if err = None then
                     (case wfalse of
                        Panics p \<Rightarrow> Panics p
                      | Returns (fs, ft, err) \<Rightarrow>
                          (if err = None then
                             Returns (''('' @ cond @ '' ? '' @ ts @ '' : '' @ fs @ '')'',
                                      (if tt = TypeUnknown then ft else tt), None)
                           else Returns ('''', TypeInvalid, err)))
                   else Returns ('''', TypeInvalid, err)))
           else Returns ('''', TypeInvalid, err)))"

definition renderIndex ::
  "(string \<times> ast_type \<times> error option) outcome
     \<Rightarrow> (string \<times> ast_type \<times> error option) outcome
     \<Rightarrow> (string \<times> ast_type \<times> error option) outcome" where
  "renderIndex wtarget wkey =
     (case wtarget of
        Panics p \<Rightarrow> Panics p
      | Returns (ts, tt, err) \<Rightarrow>
          (if err = None then
             (case wkey of
                Panics p \<Rightarrow> Panics p
              | Returns (ks, kt, err) \<Rightarrow>
                  (if err = None then Returns (ts @ ''['' @ ks @ '']'', TypeUnknown, None)
                   else Returns ('''', TypeInvalid, err)))
           else Returns ('''', TypeInvalid, err)))"

definition renderOutput ::
  "(string list \<times> ast_type list \<times> error option) outcome
     \<Rightarrow> (string \<times> ast_type \<times> error option) outcome" where
  "renderOutput walked =
     (case walked of
        Panics p \<Rightarrow> Panics p
      | Returns (strs, typs, err) \<Rightarrow>
          (if err = None then
             Returns (strings_Join strs '''',
                      (case typs of
                         [] \<Rightarrow> TypeString
                       | t # ts \<Rightarrow> (if ts = [] then t else TypeString)), None)
           else Returns ('''', TypeInvalid, err)))"

fun walkNode ::
    "extern \<Rightarrow> graph \<Rightarrow> ast_node \<Rightarrow> (string \<times> ast_type \<times> error option) outcome"
  and walkNodes ::
    "extern \<Rightarrow> graph \<Rightarrow> ast_node list
       \<Rightarrow> (string list \<times> ast_type list \<times> error option) outcome"
where
  "walkNode ext g (Arithmetic op exprs) = renderArithmetic op (walkNodes ext g exprs)"
| "walkNode ext g (Call func args) = renderCall func (walkNodes ext g args)"
| "walkNode ext g (Conditional c t f) =
     renderConditional (walkNode ext g c) (walkNode ext g t) (walkNode ext g f)"
| "walkNode ext g (Index target key) =
     renderIndex (walkNode ext g target) (walkNode ext g key)"
| "walkNode ext g (LiteralNode v typex) = walkLiteral ext v typex"
| "walkNode ext g (Output exprs) = renderOutput (walkNodes ext g exprs)"
| "walkNode ext g (VariableAccess name) = walkVariableAccess ext g name"
| "walkNode ext g OtherNode = Returns ('''', TypeInvalid, Some UnexpectedHILNodeType)"
| "walkNodes ext g [] = Returns ([], [], None)"
| "walkNodes ext g (n # ns) = walkNodes_step (walkNode ext g n) (walkNodes ext g ns)"

text \<open>The methods under their own names.\<close>

definition walkArithmetic ::
  "extern \<Rightarrow> graph \<Rightarrow> arithmetic_op \<Rightarrow> ast_node list
     \<Rightarrow> (string \<times> ast_type \<times> error option) outcome" where
  "walkArithmetic ext g op exprs = renderArithmetic op (walkNodes ext g exprs)"

definition walkCall ::
  "extern \<Rightarrow> graph \<Rightarrow> string \<Rightarrow> ast_node list
     \<Rightarrow> (string \<times> ast_type \<times> error option) outcome" where
  "walkCall ext g func args = renderCall func (walkNodes ext g args)"

definition walkConditional ::
  "extern \<Rightarrow> graph \<Rightarrow> ast_node \<Rightarrow> ast_node \<Rightarrow> ast_node
     \<Rightarrow> (string \<times> ast_type \<times> error option) outcome" where
  "walkConditional ext g c t f =
     renderConditional (walkNode ext g c) (walkNode ext g t) (walkNode ext g f)"

definition walkIndex ::
  "extern \<Rightarrow> graph \<Rightarrow> ast_node \<Rightarrow> ast_node
     \<Rightarrow> (string \<times> ast_type \<times> error option) outcome" where
  "walkIndex ext g target key = renderIndex (walkNode ext g target) (walkNode ext g key)"

definition walkOutput ::
  "extern \<Rightarrow> graph \<Rightarrow> ast_node list \<Rightarrow> (string \<times> ast_type \<times> error option) outcome" where
  "walkOutput ext g exprs = renderOutput (walkNodes ext g exprs)"

definition computeHILProperty ::
  "extern \<Rightarrow> graph \<Rightarrow> ast_node \<Rightarrow> (string \<times> ast_type \<times> error option) outcome" where
  "computeHILProperty ext g n = walkNode ext g n"

subsection \<open>Value serializer\<close>

text \<open>
  Modelled from the spec: \<^verbatim>\<open>sortedKeys\<close>, a helper of this repository that is not in
  the file. The spec says of the mapping case that "keys are iterated in sorted order
  for determinism" and that the serializer must "sort keys before emission": the
  helper returns the keys of the map, sorted (Go orders strings byte-wise, which is the
  lexicographic order on \<open>string\<close>).
\<close>

definition sortedKeys :: "(string \<times> go_value) list \<Rightarrow> string list" where
  "sortedKeys m = sort (map fst m)"

text \<open>\<^verbatim>\<open>m[k]\<close>: the value stored under the key, \<^verbatim>\<open>nil\<close> when there is none.\<close>

definition map_index :: "(string \<times> go_value) list \<Rightarrow> string \<Rightarrow> go_value" where
  "map_index m k = (case map_of m k of None \<Rightarrow> VNil | Some v \<Rightarrow> v)"

definition newline :: string where
  "newline = [CHR 0x0A]"

text \<open>
  One round of the loop of \<^verbatim>\<open>computeSliceProperty\<close>: from the outcome of serializing
  the element and the outcome of the rounds after it, the text the loop writes from
  this element on. An error or a panic of the element comes first.
\<close>

definition slice_step ::
  "string \<Rightarrow> schemas \<Rightarrow> (string \<times> ast_type \<times> error option) outcome
     \<Rightarrow> (string \<times> error option) outcome \<Rightarrow> (string \<times> error option) outcome" where
  "slice_step elemIndent elemSch first others =
     (case first of
        Panics p \<Rightarrow> Panics p
      | Returns (elem, elemTyp, err) \<Rightarrow>
          (if err = None then
             (case others of
                Panics p \<Rightarrow> Panics p
              | Returns (text, err') \<Rightarrow>
                  (if err' = None then
                     Returns (newline @ elemIndent
                                @ coerceProperty
                                    (if elemTyp = TypeList then ''...'' @ elem else elem)
                                    elemTyp (astType elemSch)
                                @ '','' @ text, None)
                   else Returns ('''', err')))
           else Returns ('''', err)))"

definition renderSlice ::
  "string \<Rightarrow> (string \<times> error option) outcome
     \<Rightarrow> (string \<times> ast_type \<times> error option) outcome" where
  "renderSlice indent items =
     (case items of
        Panics p \<Rightarrow> Panics p
      | Returns (text, err) \<Rightarrow>
          (if err = None then
             Returns (''['' @ text @ newline @ indent @ '']'', TypeList, None)
           else Returns ('''', TypeInvalid, err)))"

text \<open>One round of the loop of \<^verbatim>\<open>computeMapProperty\<close>, for the key \<open>k\<close>: the value
  is serialized first, then the key is translated, which may abort.\<close>

definition map_step ::
  "extern \<Rightarrow> string \<Rightarrow> string \<Rightarrow> schemas
     \<Rightarrow> (string \<times> ast_type \<times> error option) outcome
     \<Rightarrow> (string \<times> error option) outcome \<Rightarrow> (string \<times> error option) outcome" where
  "map_step ext k propIndent propSch first others =
     (case first of
        Panics p \<Rightarrow> Panics p
      | Returns (prop, propTyp, err) \<Rightarrow>
          (if err = None then
             (case tsName ext k (tf propSch) (pulumi propSch) True of
                Panics p \<Rightarrow> Panics p
              | Returns key \<Rightarrow>
                  (case others of
                     Panics p \<Rightarrow> Panics p
                   | Returns (text, err') \<Rightarrow>
                       (if err' = None then
                          Returns (newline @ propIndent @ key @ '': ''
                                     @ coerceProperty prop propTyp (astType propSch)
                                     @ '','' @ text, None)
                        else Returns ('''', err'))))
           else Returns ('''', err)))"

definition renderMap ::
  "string \<Rightarrow> (string \<times> error option) outcome
     \<Rightarrow> (string \<times> ast_type \<times> error option) outcome" where
  "renderMap indent props =
     (case props of
        Panics p \<Rightarrow> Panics p
      | Returns (text, err) \<Rightarrow>
          (if err = None then
             Returns (''{'' @ text @ newline @ indent @ ''}'', TypeMap, None)
           else Returns ('''', TypeInvalid, err)))"

lemma size_map_index:
  "size (map_index m k) \<le> size_list (size_prod (\<lambda>x. 0) size) m"
  by (induction m) (auto simp: map_index_def)

function
  computeProperty ::
    "extern \<Rightarrow> graph \<Rightarrow> go_value \<Rightarrow> string \<Rightarrow> schemas
       \<Rightarrow> (string \<times> ast_type \<times> error option) outcome"
  and computeSliceProperty ::
    "extern \<Rightarrow> graph \<Rightarrow> go_value list \<Rightarrow> string \<Rightarrow> schemas
       \<Rightarrow> (string \<times> ast_type \<times> error option) outcome"
  and sliceLoop ::
    "extern \<Rightarrow> graph \<Rightarrow> go_value list \<Rightarrow> string \<Rightarrow> schemas
       \<Rightarrow> (string \<times> error option) outcome"
  and computeMapProperty ::
    "extern \<Rightarrow> graph \<Rightarrow> (string \<times> go_value) list \<Rightarrow> string \<Rightarrow> schemas
       \<Rightarrow> (string \<times> ast_type \<times> error option) outcome"
  and mapLoop ::
    "extern \<Rightarrow> graph \<Rightarrow> string list \<Rightarrow> (string \<times> go_value) list \<Rightarrow> string \<Rightarrow> schemas
       \<Rightarrow> (string \<times> error option) outcome"
where
  "computeProperty ext g VNil indent sch = Panics ReflectZeroValue"
| "computeProperty ext g (VNode n) indent sch = computeHILProperty ext g n"
| "computeProperty ext g (VBool b) indent sch =
     Returns (Sprintf_v ext (SBool b), TypeBool, None)"
| "computeProperty ext g (VInt i) indent sch =
     Returns (Sprintf_v ext (SInt i), TypeFloat, None)"
| "computeProperty ext g (VFloat64 x) indent sch =
     Returns (Sprintf_v ext (SFloat64 x), TypeFloat, None)"
| "computeProperty ext g (VString s) indent sch =
     Returns (Sprintf_q ext (SString s), TypeString, None)"
| "computeProperty ext g (VSlice s) indent sch = computeSliceProperty ext g s indent sch"
| "computeProperty ext g (VMap m) indent sch = computeMapProperty ext g m indent sch"
| "computeProperty ext g (VOther k) indent sch = Panics AssertionFailure"
| "computeSliceProperty ext g s indent sch =
     (if IsMaxItemsOne ext (tf sch) (pulumi sch) then
        (case s of
           [] \<Rightarrow> Returns (''undefined'', TypeUnknown, None)
         | v # vs \<Rightarrow>
             (if vs = [] then computeProperty ext g v indent (elemSchemas sch)
              else Returns ('''', TypeInvalid, Some ExpectedAtMostOneItem)))
      else renderSlice indent (sliceLoop ext g s indent (elemSchemas sch)))"
| "sliceLoop ext g [] indent elemSch = Returns ('''', None)"
| "sliceLoop ext g (v # vs) indent elemSch =
     slice_step (indent @ ''    '') elemSch
       (computeProperty ext g v (indent @ ''    '') elemSch)
       (sliceLoop ext g vs indent elemSch)"
| "computeMapProperty ext g m indent sch =
     renderMap indent (mapLoop ext g (sortedKeys m) m indent sch)"
| "mapLoop ext g [] m indent sch = Returns ('''', None)"
| "mapLoop ext g (k # ks) m indent sch =
     map_step ext k (indent @ ''    '') (propertySchemas sch k)
       (computeProperty ext g (map_index m k) (indent @ ''    '') (propertySchemas sch k))
       (mapLoop ext g ks m indent sch)"
  by pat_completeness auto

termination
  by (relation "measures
    [case_sum
       (case_sum (\<lambda>(ext, g, v, indent, sch). size v)
                 (\<lambda>(ext, g, s, indent, sch). size_list size s))
       (case_sum (\<lambda>(ext, g, s, indent, sch). size_list size s)
          (case_sum
             (\<lambda>(ext, g, m, indent, sch). Suc (size_list (size_prod (\<lambda>x. 0) size) m))
             (\<lambda>(ext, g, ks, m, indent, sch).
                 Suc (size_list (size_prod (\<lambda>x. 0) size) m)))),
     case_sum
       (case_sum (\<lambda>x. 2) (\<lambda>x. 1))
       (case_sum (\<lambda>x. 0) (case_sum (\<lambda>x. 1) (\<lambda>x. 0))),
     case_sum
       (\<lambda>x. 0)
       (case_sum (\<lambda>x. 0)
          (case_sum (\<lambda>x. 0) (\<lambda>(ext, g, ks, m, indent, sch). length ks)))]")
    (simp_all add: less_Suc_eq_le size_map_index)

text \<open>
  The values \<^verbatim>\<open>computeProperty\<close> has no case for: not an expression node, and of a
  dynamic kind other than bool, int, float64, string, slice and map.
\<close>

definition unsupportedShape :: "go_value \<Rightarrow> bool" where
  "unsupportedShape v = (case v of VNil \<Rightarrow> True | VOther k \<Rightarrow> True | _ \<Rightarrow> False)"

text \<open>
  Two descriptions of one Go value: they differ at most in the order in which the
  entries of their maps, at any depth, are listed. Keys of a map are unique.
\<close>

inductive same_value :: "go_value \<Rightarrow> go_value \<Rightarrow> bool" where
  same_refl: "same_value v v"
| same_slice: "list_all2 same_value xs ys \<Longrightarrow> same_value (VSlice xs) (VSlice ys)"
| same_map:
    "distinct (map fst m) \<Longrightarrow> distinct (map fst m') \<Longrightarrow> set (map fst m) = set (map fst m')
     \<Longrightarrow> list_all (\<lambda>k. same_value (map_index m k) (map_index m' k)) (map fst m)
     \<Longrightarrow> same_value (VMap m) (VMap m')"

text \<open>The line \<^verbatim>\<open>computeMapProperty\<close> writes for the key \<open>k\<close> of the map \<open>m\<close>.\<close>

definition property_line ::
  "extern \<Rightarrow> graph \<Rightarrow> (string \<times> go_value) list \<Rightarrow> string \<Rightarrow> schemas \<Rightarrow> string \<Rightarrow> string" where
  "property_line ext g m indent sch k =
     (case computeProperty ext g (map_index m k) (indent @ ''    '') (propertySchemas sch k) of
        Panics p \<Rightarrow> ''''
      | Returns r \<Rightarrow>
          (case tsName ext k (tf (propertySchemas sch k))
                  (pulumi (propertySchemas sch k)) True of
             Panics p \<Rightarrow> ''''
           | Returns key \<Rightarrow>
               newline @ indent @ ''    '' @ key @ '': ''
                 @ coerceProperty (fst r) (fst (snd r)) (astType (propertySchemas sch k))
                 @ '',''))"

subsection \<open>Statement emitter\<close>

text \<open>
  The \<^verbatim>\<open>generator\<close> interface: five hooks. A hook may do anything to its own state
  (it prints) and may fail; it is a function from its state \<open>'s\<close> to an optional error
  and the next state.
\<close>

record 's generator =
  generatePreamble :: "graph \<Rightarrow> 's \<Rightarrow> error option \<times> 's"
  generateVariables :: "nat list \<Rightarrow> 's \<Rightarrow> error option \<times> 's"
  generateLocal :: "nat \<Rightarrow> 's \<Rightarrow> error option \<times> 's"
  generateResource :: "nat \<Rightarrow> 's \<Rightarrow> error option \<times> 's"
  generateOutputs :: "nat list \<Rightarrow> 's \<Rightarrow> error option \<times> 's"

text \<open>
  The state of one run of \<^verbatim>\<open>generate\<close>: the state of the hooks and the \<^verbatim>\<open>done\<close>
  map.
\<close>

record 's run =
  lang_state :: 's
  done_nodes :: "node set"

text \<open>The tail of \<^verbatim>\<open>generateNode\<close>: the type switch, the hook, and the mark.\<close>

definition markDone :: "node \<Rightarrow> error option \<times> 's \<Rightarrow> 's run \<Rightarrow> error option \<times> 's run" where
  "markDone n res st =
     (if fst res = None then
        (None, \<lparr>lang_state = snd res, done_nodes = insert n (done_nodes st)\<rparr>)
      else (fst res, \<lparr>lang_state = snd res, done_nodes = done_nodes st\<rparr>))"

definition emitNode :: "'s generator \<Rightarrow> node \<Rightarrow> 's run \<Rightarrow> error option \<times> 's run" where
  "emitNode lang n st =
     (case n of
        LocalNode l \<Rightarrow> markDone n (generateLocal lang l (lang_state st)) st
      | ResourceNode r \<Rightarrow> markDone n (generateResource lang r (lang_state st)) st
      | _ \<Rightarrow> (Some (UnexpectedNodeType n), st))"

text \<open>
  \<^verbatim>\<open>generateNode\<close> recurses through the dependencies with nothing to stop it on a
  cycle of nodes that are not done, where the Go recursion never returns. The first
  argument bounds the depth of the recursion; \<open>None\<close> is a run that needs more.
  \<open>generateNodes\<close> is the loop \<^verbatim>\<open>for _, d := range ... { generateNode(d, lang, done) }\<close>
  that stops at the first error; the code has it over the dependencies of a node and
  over the \<^verbatim>\<open>todo\<close> list.
\<close>

fun generateNode ::
    "nat \<Rightarrow> graph \<Rightarrow> 's generator \<Rightarrow> node \<Rightarrow> 's run \<Rightarrow> (error option \<times> 's run) option"
  and generateNodes ::
    "nat \<Rightarrow> graph \<Rightarrow> 's generator \<Rightarrow> node list \<Rightarrow> 's run
       \<Rightarrow> (error option \<times> 's run) option"
where
  "generateNode 0 G lang n st = None"
| "generateNode (Suc fuel) G lang n st =
     (if n \<in> done_nodes st then Some (None, st)
      else (case generateNodes fuel G lang (dependencies G n) st of
              None \<Rightarrow> None
            | Some r \<Rightarrow>
                (if fst r = None then Some (emitNode lang n (snd r)) else Some r)))"
| "generateNodes fuel G lang [] st = Some (None, st)"
| "generateNodes fuel G lang (d # ds) st =
     (case generateNode fuel G lang d st of
        None \<Rightarrow> None
      | Some r \<Rightarrow>
          (if fst r = None then generateNodes fuel G lang ds (snd r) else Some r))"

text \<open>
  The loops over \<^verbatim>\<open>g.locals\<close> and over \<^verbatim>\<open>g.resources\<close>: a node without dependencies
  is generated at once, any other is appended to \<^verbatim>\<open>todo\<close>.
\<close>

fun generateReady ::
  "nat \<Rightarrow> graph \<Rightarrow> 's generator \<Rightarrow> node list \<Rightarrow> node list \<Rightarrow> 's run
     \<Rightarrow> (error option \<times> 's run \<times> node list) option" where
  "generateReady fuel G lang [] todo st = Some (None, st, todo)"
| "generateReady fuel G lang (n # ns) todo st =
     (if dependencies G n = [] then
        (case generateNode fuel G lang n st of
           None \<Rightarrow> None
         | Some r \<Rightarrow>
             (if fst r = None then generateReady fuel G lang ns todo (snd r)
              else Some (fst r, snd r, todo)))
      else generateReady fuel G lang ns (todo @ [n]) st)"

definition isVariableNode :: "node \<Rightarrow> bool" where
  "isVariableNode n = (case n of VariableNode v \<Rightarrow> True | _ \<Rightarrow> False)"

definition providerDependencies :: "graph \<Rightarrow> node list" where
  "providerDependencies G = concat (map (\<lambda>p. dependencies G (ProviderNode p)) (providers G))"

definition outputDependencies :: "graph \<Rightarrow> node list" where
  "outputDependencies G = concat (map (\<lambda>n. dependencies G (OutputNode n)) (outputs G))"

text \<open>\<^verbatim>\<open>generate\<close> up to the end of the \<^verbatim>\<open>todo\<close> loop.\<close>

definition generateGraphNodes ::
  "nat \<Rightarrow> graph \<Rightarrow> 's generator \<Rightarrow> 's \<Rightarrow> (error option \<times> 's run) option" where
  "generateGraphNodes fuel G lang s =
     (case find (\<lambda>d. \<not> isVariableNode d) (providerDependencies G) of
        Some d \<Rightarrow>
          Some (Some (UnsupportedProviderDependency d), \<lparr>lang_state = s, done_nodes = {}\<rparr>)
      | None \<Rightarrow>
          (let p = generatePreamble lang G s in
           if fst p = None then
             (let v = generateVariables lang (variables G) (snd p) in
              if fst v = None then
                (case generateReady fuel G lang (map LocalNode (locals G)) []
                        \<lparr>lang_state = snd v,
                         done_nodes = VariableNode ` set (variables G)\<rparr> of
                   None \<Rightarrow> None
                 | Some l \<Rightarrow>
                     (if fst l = None then
                        (case generateReady fuel G lang (map ResourceNode (resources G))
                                (snd (snd l)) (fst (snd l)) of
                           None \<Rightarrow> None
                         | Some r \<Rightarrow>
                             (if fst r = None then
                                generateNodes fuel G lang (snd (snd r)) (fst (snd r))
                              else Some (fst r, fst (snd r))))
                      else Some (fst l, fst (snd l))))
              else Some (fst v, \<lparr>lang_state = snd v, done_nodes = {}\<rparr>))
           else Some (fst p, \<lparr>lang_state = snd p, done_nodes = {}\<rparr>)))"

text \<open>The rest of \<^verbatim>\<open>generate\<close>: the check of the outputs and their hook.\<close>

definition generateGraphOutputs :: "graph \<Rightarrow> 's generator \<Rightarrow> 's run \<Rightarrow> error option \<times> 's run" where
  "generateGraphOutputs G lang st =
     (case find (\<lambda>d. d \<notin> done_nodes st) (outputDependencies G) of
        Some d \<Rightarrow> (Some (UnsatisfiedDependency d), st)
      | None \<Rightarrow>
          (let r = generateOutputs lang (outputs G) (lang_state st)
           in (fst r, \<lparr>lang_state = snd r, done_nodes = done_nodes st\<rparr>)))"

definition generate ::
  "nat \<Rightarrow> graph \<Rightarrow> 's generator \<Rightarrow> 's \<Rightarrow> (error option \<times> 's run) option" where
  "generate fuel G lang s =
     (case generateGraphNodes fuel G lang s of
        None \<Rightarrow> None
      | Some r \<Rightarrow>
          (if fst r = None then Some (generateGraphOutputs G lang (snd r)) else Some r))"

subsection \<open>Observing the hooks\<close>

text \<open>
  To state in which order \<^verbatim>\<open>generate\<close> invokes the hooks, the hooks themselves keep
  the record: \<open>traced lang\<close> is the generator \<open>lang\<close> whose every hook, when it is
  invoked, also appends its own name and argument to a log that it carries in its
  state. Nothing but a hook writes the log.
\<close>

datatype event =
  PreambleHook | VariablesHook "nat list" | LocalHook nat | ResourceHook nat
  | OutputsHook "nat list"

definition logged :: "event \<Rightarrow> event list \<Rightarrow> error option \<times> 's \<Rightarrow> error option \<times> event list \<times> 's" where
  "logged ev log res = (fst res, log @ [ev], snd res)"

definition traced :: "'s generator \<Rightarrow> (event list \<times> 's) generator" where
  "traced lang =
     \<lparr>generatePreamble =
        (\<lambda>g ls. logged PreambleHook (fst ls) (generatePreamble lang g (snd ls))),
      generateVariables =
        (\<lambda>vs ls. logged (VariablesHook vs) (fst ls) (generateVariables lang vs (snd ls))),
      generateLocal =
        (\<lambda>l ls. logged (LocalHook l) (fst ls) (generateLocal lang l (snd ls))),
      generateResource =
        (\<lambda>r ls. logged (ResourceHook r) (fst ls) (generateResource lang r (snd ls))),
      generateOutputs =
        (\<lambda>os ls. logged (OutputsHook os) (fst ls) (generateOutputs lang os (snd ls)))\<rparr>"

text \<open>The log of a run of a traced generator, and the run without its log.\<close>

definition hook_log :: "(event list \<times> 's) run \<Rightarrow> event list" where
  "hook_log st = fst (lang_state st)"

definition untraced :: "(event list \<times> 's) run \<Rightarrow> 's run" where
  "untraced st = \<lparr>lang_state = snd (lang_state st), done_nodes = done_nodes st\<rparr>"

subsection \<open>Properties of an emission order\<close>

text \<open>The record a local or resource node leaves when its kind-specific hook is invoked
  on it (the function is only used on such nodes).\<close>

definition hook_event :: "node \<Rightarrow> event" where
  "hook_event n =
     (case n of
        LocalNode l \<Rightarrow> LocalHook l
      | ResourceNode r \<Rightarrow> ResourceHook r
      | _ \<Rightarrow> PreambleHook)"

definition isLocalOrResource :: "node \<Rightarrow> bool" where
  "isLocalOrResource n =
     (case n of LocalNode l \<Rightarrow> True | ResourceNode r \<Rightarrow> True | _ \<Rightarrow> False)"

definition isNodeHook :: "event \<Rightarrow> bool" where
  "isNodeHook ev = (case ev of LocalHook l \<Rightarrow> True | ResourceHook r \<Rightarrow> True | _ \<Rightarrow> False)"

text \<open>
  \<open>topological G D ns\<close>: in the sequence \<open>ns\<close> every dependency of a node is in \<open>D\<close> or
  stands strictly before the node.
\<close>

fun topological :: "graph \<Rightarrow> node set \<Rightarrow> node list \<Rightarrow> bool" where
  "topological G D [] = True"
| "topological G D (n # ns) = (set (dependencies G n) \<subseteq> D \<and> topological G (insert n D) ns)"

text \<open>
  \<open>pending G S m\<close>: every node of \<open>S\<close> has a dependency in \<open>S\<close> or the dependency \<open>m\<close>;
  it describes the nodes whose calls of \<^verbatim>\<open>generateNode\<close> are open while \<open>m\<close> is
  being generated.
\<close>

definition pending :: "graph \<Rightarrow> node set \<Rightarrow> node \<Rightarrow> bool" where
  "pending G S m = (\<forall>x \<in> S. \<exists>y \<in> insert m S. y \<in> set (dependencies G x))"

text \<open>
  What holds of a run of a traced generator between two calls of \<^verbatim>\<open>generateNode\<close>:
  the hooks invoked are the preamble, the variables and then those of a duplicate-free
  sequence of local and resource nodes in topological order, and \<^verbatim>\<open>done\<close> holds the
  variables and exactly these nodes.
\<close>

definition emitted_in_order :: "graph \<Rightarrow> (event list \<times> 's) run \<Rightarrow> node list \<Rightarrow> bool" where
  "emitted_in_order G st ns =
     (hook_log st = [PreambleHook, VariablesHook (variables G)] @ map hook_event ns
      \<and> done_nodes st = VariableNode ` set (variables G) \<union> set ns
      \<and> distinct ns
      \<and> list_all isLocalOrResource ns
      \<and> topological G (VariableNode ` set (variables G)) ns)"


subsection \<open>Concrete inputs for the examples\<close>

text \<open>
  Stand-ins for the external functions, enough to run the code on examples. The name
  translation is written after \<^verbatim>\<open>tfbridge.TerraformToPulumiName\<close>: it drops each
  underscore after the first other character and capitalizes the letter that follows,
  and its assertion fails on a doubled underscore; it ignores the schema. A list
  collapses when its schema says \<open>MaxItems = 1\<close>. A few variable names parse; as in
  \<^verbatim>\<open>terraform/config\<close>, a \<^verbatim>\<open>var.\<close> reference with a dot after the name is refused by
  the parser.
\<close>

definition to_upper :: "char \<Rightarrow> char" where
  "to_upper c =
     (case map_of (zip ''abcdefghijklmnopqrstuvwxyz'' ''ABCDEFGHIJKLMNOPQRSTUVWXYZ'') c of
        None \<Rightarrow> c
      | Some u \<Rightarrow> u)"

fun pulumi_name :: "bool \<Rightarrow> bool \<Rightarrow> bool \<Rightarrow> string \<Rightarrow> string outcome" where
  "pulumi_name cap nextCap active [] = Returns []"
| "pulumi_name cap nextCap active (c # cs) =
     (if c = CHR ''_'' \<and> active then
        (if nextCap then Panics AssertionFailure else pulumi_name False True active cs)
      else
        (case pulumi_name False False True cs of
           Panics p \<Rightarrow> Panics p
         | Returns r \<Rightarrow> Returns ((if cap \<or> nextCap then to_upper c else c) # r)))"

definition example_extern :: extern where
  "example_extern =
     \<lparr>TerraformToPulumiName = (\<lambda>name sch upper. pulumi_name upper False False name),
      IsMaxItemsOne = (\<lambda>t i. case t of None \<Rightarrow> False | Some s \<Rightarrow> schema_MaxItems s = 1),
      NewInterpolatedVariable =
        (\<lambda>name.
           if name = ''var.region'' then Inr (UserVariable ''region'' '''')
           else if name = ''var.zone'' then Inr (UserVariable ''zone'' '''')
           else if name = ''var.count'' then Inr (UserVariable ''count'' '''')
           else if name = ''var.missing'' then Inr (UserVariable ''missing'' '''')
           else if name = ''var.a__b'' then Inr (UserVariable ''a__b'' '''')
           else if name = ''aws_instance.web.instance_type'' then
             Inr (ResourceVariable
                    \<lparr>rv_Mode = ManagedResourceMode, rv_Type = ''aws_instance'',
                     rv_Name = ''web'', rv_Field = ''instance_type'', rv_Multi = False\<rparr>)
           else Inl (ExternalError ''invalid interpolation'')),
      ResourceId = (\<lambda>v. rv_Type v @ ''.'' @ rv_Name v),
      Sprintf_v = (\<lambda>v. case v of
                         SBool b \<Rightarrow> (if b then ''true'' else ''false'')
                       | _ \<Rightarrow> ''0''),
      Sprintf_q = (\<lambda>v. case v of
                         SString s \<Rightarrow> ''\"'' @ s @ ''\"''
                       | _ \<Rightarrow> '''')\<rparr>"

text \<open>
  A provider whose metadata renames the field \<^verbatim>\<open>instance_type\<close> of \<^verbatim>\<open>aws_instance\<close>
  to \<^verbatim>\<open>size\<close>.
\<close>

definition example_provider :: providerInfo where
  "example_provider =
     \<lparr>provider_P =
        Some [(''aws_instance'',
               Resource [(''instance_type'', Schema schema_TypeString ElemNil 0)])],
      provider_Resources =
        [(''aws_instance'',
          \<lparr>resinfo_Tok = ''aws:ec2/instance:Instance'',
           resinfo_Fields = [(''instance_type'', SchemaInfo ''size'' [] None None)]\<rparr>)]\<rparr>"

text \<open>The schema triple of \<^verbatim>\<open>aws_instance\<close> under that provider.\<close>

definition example_schemas :: schemas where
  "example_schemas =
     \<lparr>tf = None,
      tfRes = Some (Resource [(''instance_type'', Schema schema_TypeString ElemNil 0)]),
      pulumi = Some (SchemaInfo ''''
                      [(''instance_type'', SchemaInfo ''size'' [] None None)] None None)\<rparr>"

text \<open>
  A graph with one variable, one local and two resources; resource 1 is listed before
  resource 0, depends on it twice, and on the local and the variable. The variables
  \<^verbatim>\<open>zone\<close> and \<^verbatim>\<open>a__b\<close> have string defaults, \<^verbatim>\<open>count\<close> a numeric one.
\<close>

definition example_graph :: graph where
  "example_graph =
     \<lparr>providers = [0], variables = [0], locals = [0], resources = [1, 0], outputs = [0],
      dependencies =
        (\<lambda>n. if n = ResourceNode 1
                then [ResourceNode 0, VariableNode 0, LocalNode 0, ResourceNode 0]
             else if n = OutputNode 0 then [ResourceNode 1]
             else if n = ProviderNode 0 then [VariableNode 0]
             else []),
      resource_at =
        (\<lambda>key. if key = ''aws_instance.web''
                then Some \<lparr>provider_info = Some example_provider\<rparr>
                else None),
      variable_at =
        (\<lambda>key. if key = ''region'' then Some \<lparr>defaultValue = VNil\<rparr>
               else if key = ''zone'' then Some \<lparr>defaultValue = VString ''a''\<rparr>
               else if key = ''count'' then Some \<lparr>defaultValue = VInt 2\<rparr>
               else if key = ''a__b'' then Some \<lparr>defaultValue = VString ''x''\<rparr>
               else None)\<rparr>"

text \<open>A generator whose hooks all succeed; each writes a line of its own.\<close>

definition example_generator :: "string list generator" where
  "example_generator =
     \<lparr>generatePreamble = (\<lambda>g s. (None, s @ [''import''])),
      generateVariables = (\<lambda>vs s. (None, s @ [''config''])),
      generateLocal = (\<lambda>l s. (None, s @ [''local''])),
      generateResource = (\<lambda>r s. (None, s @ [''resource''])),
      generateOutputs = (\<lambda>os s. (None, s @ [''export'']))\<rparr>"





section \<open>Schema accessor: the derivations never fail\<close>

text \<open>
  C8. \<open>propertySchemas\<close> and \<open>elemSchemas\<close> return a plain triple on every input: they
  have no error result and no panic (every pointer they follow is tested against
  \<^verbatim>\<open>nil\<close> first). On the triple with all three views absent both return the
  all-absent triple, for every key, and the lattice type of the all-absent triple is
  \<open>TypeUnknown\<close>. More generally each view of the result is absent as soon as the view
  it is derived from is absent.
\<close>

theorem schema_derivations_total:
  "propertySchemas no_schemas key = no_schemas
   \<and> elemSchemas no_schemas = no_schemas
   \<and> astType no_schemas = TypeUnknown
   \<and> (if tfRes s = None
       then tf (propertySchemas s key) = None \<and> tfRes (propertySchemas s key) = None
       else True)
   \<and> (if pulumi s = None
       then pulumi (propertySchemas s key) = None \<and> pulumi (elemSchemas s) = None
       else True)
   \<and> (if tf s = None
       then tf (elemSchemas s) = None \<and> tfRes (elemSchemas s) = None
       else True)"
  by (simp add: propertySchemas_def elemSchemas_def astType_def no_schemas_def Let_def)

theorem schema_derivations_total_witness:
  "propertySchemas no_schemas ''ami'' = no_schemas
   \<and> elemSchemas no_schemas = no_schemas
   \<and> astType no_schemas = TypeUnknown
   \<and> tf (propertySchemas \<lparr>tf = None, tfRes = None, pulumi = None\<rparr> ''ami'') = None
   \<and> pulumi (elemSchemas \<lparr>tf = None, tfRes = None, pulumi = None\<rparr>) = None
   \<and> tfRes (elemSchemas \<lparr>tf = None, tfRes = None, pulumi = None\<rparr>) = None"
  using schema_derivations_total [of "''ami''" "\<lparr>tf = None, tfRes = None, pulumi = None\<rparr>"]
  by simp

section \<open>Type coercion\<close>

text \<open>
  C3. \<open>coerceProperty\<close> returns the text unchanged when the inferred type equals the
  destination type or the inferred type is not \<open>TypeString\<close>. For an inferred
  \<open>TypeString\<close> and a different destination: destination \<open>TypeBool\<close> turns exactly
  the texts \<^verbatim>\<open>"true"\<close> and \<^verbatim>\<open>"false"\<close> (with their quotes) into the bare literals and
  wraps every other text as a comparison with \<^verbatim>\<open>"true"\<close>; a numeric destination
  (\<open>TypeInt\<close> or \<open>TypeFloat\<close>) wraps the text in \<^verbatim>\<open>Number.parseFloat\<close>; every other
  destination leaves the text unchanged.
\<close>

theorem coerceProperty_spec:
  "(t = d \<or> t \<noteq> TypeString \<longrightarrow> coerceProperty v t d = v)
   \<and> coerceProperty ''\"true\"'' TypeString TypeBool = ''true''
   \<and> coerceProperty ''\"false\"'' TypeString TypeBool = ''false''
   \<and> (v \<noteq> ''\"true\"'' \<and> v \<noteq> ''\"false\"''
        \<longrightarrow> coerceProperty v TypeString TypeBool = ''('' @ v @ '' === \"true\")'')
   \<and> (d = TypeInt \<or> d = TypeFloat
        \<longrightarrow> coerceProperty v TypeString d = ''Number.parseFloat('' @ v @ '')'')
   \<and> (d \<noteq> TypeBool \<and> d \<noteq> TypeInt \<and> d \<noteq> TypeFloat
        \<longrightarrow> coerceProperty v TypeString d = v)"
  by (cases d) (simp_all add: coerceProperty_def)

theorem coerceProperty_spec_witness:
  "coerceProperty ''true'' TypeBool TypeBool = ''true''
   \<and> coerceProperty ''5'' TypeFloat TypeString = ''5''
   \<and> coerceProperty ''\"true\"'' TypeString TypeBool = ''true''
   \<and> coerceProperty ''\"false\"'' TypeString TypeBool = ''false''
   \<and> coerceProperty ''x'' TypeString TypeBool = ''(x === \"true\")''
   \<and> coerceProperty ''x'' TypeString TypeFloat = ''Number.parseFloat(x)''
   \<and> coerceProperty ''x'' TypeString TypeInt = ''Number.parseFloat(x)''
   \<and> coerceProperty ''x'' TypeString TypeList = ''x''"
  using coerceProperty_spec [where v = "''true''" and t = TypeBool and d = TypeBool]
    coerceProperty_spec [where v = "''5''" and t = TypeFloat and d = TypeString]
    coerceProperty_spec [where v = "''x''" and t = TypeString and d = TypeBool]
    coerceProperty_spec [where v = "''x''" and t = TypeString and d = TypeFloat]
    coerceProperty_spec [where v = "''x''" and t = TypeString and d = TypeInt]
    coerceProperty_spec [where v = "''x''" and t = TypeString and d = TypeList]
  by simp

section \<open>Value serializer: the collapse law\<close>

text \<open>
  C2. When the schema pair of a sequence signals collapse-to-scalar
  (\<open>IsMaxItemsOne\<close> of its source schema and its override), \<open>computeSliceProperty\<close>
  returns \<^verbatim>\<open>undefined\<close> with type \<open>TypeUnknown\<close> and no error for the empty sequence;
  for a sequence of one element it returns what \<open>computeProperty\<close> returns for that
  element under the element schema and the same indentation (text, type and error
  alike, not wrapped in a sequence); for two or more elements it returns the error
  "expected at most one item in list". The same holds of \<open>computeProperty\<close> on the
  slice value.
\<close>

theorem collapse_to_scalar:
  assumes "IsMaxItemsOne ext (tf sch) (pulumi sch)"
  shows "computeSliceProperty ext g [] indent sch = Returns (''undefined'', TypeUnknown, None)
    \<and> computeSliceProperty ext g [x] indent sch
        = computeProperty ext g x indent (elemSchemas sch)
    \<and> computeProperty ext g (VSlice [x]) indent sch
        = computeProperty ext g x indent (elemSchemas sch)
    \<and> (if 2 \<le> length s
        then computeSliceProperty ext g s indent sch
               = Returns ('''', TypeInvalid, Some ExpectedAtMostOneItem)
        else True)"
  using assms by (cases s; cases "tl s") auto

theorem collapse_to_scalar_witness:
  "IsMaxItemsOne example_extern
       (tf \<lparr>tf = Some (Schema schema_TypeList ElemNil 1), tfRes = None, pulumi = None\<rparr>)
       (pulumi \<lparr>tf = Some (Schema schema_TypeList ElemNil 1), tfRes = None, pulumi = None\<rparr>)
   \<and> computeSliceProperty example_extern example_graph [] ''''
        \<lparr>tf = Some (Schema schema_TypeList ElemNil 1), tfRes = None, pulumi = None\<rparr>
      = Returns (''undefined'', TypeUnknown, None)
   \<and> computeSliceProperty example_extern example_graph [VBool True] ''''
        \<lparr>tf = Some (Schema schema_TypeList ElemNil 1), tfRes = None, pulumi = None\<rparr>
      = Returns (''true'', TypeBool, None)
   \<and> computeSliceProperty example_extern example_graph [VBool True, VBool False] ''''
        \<lparr>tf = Some (Schema schema_TypeList ElemNil 1), tfRes = None, pulumi = None\<rparr>
      = Returns ('''', TypeInvalid, Some ExpectedAtMostOneItem)"
proof -
  have h: "IsMaxItemsOne example_extern
       (tf \<lparr>tf = Some (Schema schema_TypeList ElemNil 1), tfRes = None, pulumi = None\<rparr>)
       (pulumi \<lparr>tf = Some (Schema schema_TypeList ElemNil 1), tfRes = None, pulumi = None\<rparr>)"
    by (simp add: example_extern_def)
  show ?thesis
    using h
      collapse_to_scalar [OF h, of example_graph "''''" "VBool True"
        "[VBool True, VBool False]"]
    by (simp add: example_extern_def)
qed

section \<open>Value serializer: unsupported value shapes\<close>

text \<open>
  A value that is not an expression node and whose dynamic kind is none of bool, int,
  float64, string, slice and map never makes \<open>computeProperty\<close> return, neither a
  result nor an error value: the process aborts, and the \<^verbatim>\<open>return\<close> after the
  assertion is not reached. For every such value other than \<^verbatim>\<open>nil\<close> the abort is the
  failed assertion \<^verbatim>\<open>contract.Failf\<close>.
\<close>

lemma unsupported_shape_never_returns:
  assumes "unsupportedShape v"
  shows "computeProperty ext g v indent sch
         = Panics (if v = VNil then ReflectZeroValue else AssertionFailure)"
    and "computeProperty ext g v indent sch \<noteq> Returns r"
  using assms by (cases v; simp add: unsupportedShape_def)+

text \<open>
  C10 at a failing input. \<^verbatim>\<open>nil\<close> is not an expression node and its reflect kind,
  \<^verbatim>\<open>Invalid\<close>, is none of the six kinds. The default branch calls
  \<^verbatim>\<open>contract.Failf("unexpected property type %v", refV.Type())\<close>; the argument
  \<^verbatim>\<open>refV.Type()\<close> is evaluated first and panics on the zero Value, so the process
  aborts inside \<^verbatim>\<open>reflect\<close> and the assertion the claim names is never tripped. A
  struct, like every other unsupported value that is not \<^verbatim>\<open>nil\<close>, does trip it.
\<close>

theorem nil_value_panics_before_assertion:
  "unsupportedShape VNil
   \<and> computeProperty example_extern example_graph VNil '''' no_schemas
       = Panics ReflectZeroValue
   \<and> computeProperty example_extern example_graph VNil '''' no_schemas
       \<noteq> Panics AssertionFailure
   \<and> computeProperty example_extern example_graph (VOther reflect_Struct) '''' no_schemas
       = Panics AssertionFailure"
  by (simp add: unsupportedShape_def)

section \<open>Expression compiler: variable references\<close>

text \<open>
  What the code does for a reference that parses as a declared-variable reference
  (\<^verbatim>\<open>var.\<close>), whatever the external functions are: the error
  "NYI: user variable elements" when the parsed reference has an element part;
  otherwise the error "unknown variable" when the graph has no variable of that name;
  otherwise the name is translated, and if the translation returns, the result is the
  translated name with type \<open>TypeString\<close> when the variable has no default or a default
  that is a string, and \<open>TypeUnknown\<close> when it has a default that is not a string. If
  the translation aborts, so does the compiler.
\<close>

lemma declared_variable_reference:
  assumes "NewInterpolatedVariable ext name = Inr (UserVariable vname velem)"
  shows "walkNode ext g (VariableAccess name) =
     (if velem \<noteq> '''' then
        Returns ('''', TypeInvalid, Some (NYI ''user variable elements''))
      else
        (case variable_at g vname of
           None \<Rightarrow> Returns ('''', TypeInvalid, Some (UnknownVariable vname))
         | Some vn \<Rightarrow>
             (case TerraformToPulumiName ext vname None False of
                Panics p \<Rightarrow> Panics p
              | Returns translated \<Rightarrow>
                  Returns (translated,
                           (if defaultValue vn = VNil \<or> (\<exists>s. defaultValue vn = VString s)
                            then TypeString else TypeUnknown),
                           None))))"
  using assms
  by (cases "variable_at g vname"; cases "defaultValue (the (variable_at g vname))";
      cases "TerraformToPulumiName ext vname None False")
     (simp_all add: walkVariableAccess_def)

lemma declared_variable_examples:
  "walkNode example_extern example_graph (VariableAccess ''var.count'')
     = Returns (''count'', TypeUnknown, None)
   \<and> walkNode example_extern example_graph (VariableAccess ''var.region'')
       = Returns (''region'', TypeString, None)
   \<and> walkNode example_extern example_graph (VariableAccess ''var.zone'')
       = Returns (''zone'', TypeString, None)
   \<and> walkNode example_extern example_graph (VariableAccess ''var.missing'')
       = Returns ('''', TypeInvalid, Some (UnknownVariable ''missing''))
   \<and> walkNode example_extern example_graph (VariableAccess ''var.zones.0'')
       = Returns ('''', TypeInvalid, Some (ExternalError ''invalid interpolation''))"
  by (simp add: walkVariableAccess_def example_extern_def example_graph_def)

text \<open>
  C6 at a failing input. The graph declares the variable \<^verbatim>\<open>a__b\<close> with a string
  default, so by the claim the reference \<^verbatim>\<open>var.a__b\<close> has a rendering of type
  \<open>TypeString\<close>. \<open>walkVariableAccess\<close> hands the name to
  \<^verbatim>\<open>tfbridge.TerraformToPulumiName\<close> unchecked, whose assertion fails on the doubled
  underscore: the process aborts and no type is reported. A variable without a doubled
  underscore in its name is reported as the claim says.
\<close>

theorem declared_variable_translation_aborts:
  "NewInterpolatedVariable example_extern ''var.a__b'' = Inr (UserVariable ''a__b'' '''')
   \<and> variable_at example_graph ''a__b'' = Some \<lparr>defaultValue = VString ''x''\<rparr>
   \<and> TerraformToPulumiName example_extern ''a__b'' None False = Panics AssertionFailure
   \<and> walkNode example_extern example_graph (VariableAccess ''var.a__b'')
       = Panics AssertionFailure
   \<and> walkNode example_extern example_graph (VariableAccess ''var.zone'')
       = Returns (''zone'', TypeString, None)"
  by (simp add: walkVariableAccess_def example_extern_def example_graph_def)

text \<open>
  What the code does for a resource reference, whatever the external functions are: for
  a non-multi reference whose resource is in the graph and whose schema triple is
  \<open>sch\<close>, the walk goes through the path elements, deriving the property schema at
  each step and translating the element by \<open>TerraformToPulumiName\<close> under the source
  schema of its step. If no translation aborts, the rendered text is the binding name,
  a dot, and the translated elements joined by dots, and the type is the lattice type
  of the triple the walk ends on. With provider metadata that lacks \<^verbatim>\<open>P\<close> or the
  \<^verbatim>\<open>ResourceInfo\<close> of the type, the code dereferences \<^verbatim>\<open>nil\<close>.
\<close>

lemma walkElements_returns:
  "walkElements ext sch es = Returns (names, final)
   \<Longrightarrow> final = foldl propertySchemas sch es
       \<and> length names = length es
       \<and> (\<forall>i < length es.
             TerraformToPulumiName ext (es ! i)
               (tf (foldl propertySchemas sch (take (Suc i) es))) False
             = Returns (names ! i))"
proof (induction es arbitrary: sch names)
  case Nil
  then show ?case by simp
next
  case (Cons e es)
  from Cons.prems obtain translated rest where
    first: "TerraformToPulumiName ext e (tf (propertySchemas sch e)) False
            = Returns translated"
    and others: "walkElements ext (propertySchemas sch e) es = Returns (rest, final)"
    and names: "names = translated # rest"
    by (auto simp: walkElements_step_def split: outcome.splits)
  from Cons.IH [OF others] have
    ih: "final = foldl propertySchemas (propertySchemas sch e) es"
      "length rest = length es"
      "\<And>i. i < length es \<Longrightarrow>
         TerraformToPulumiName ext (es ! i)
           (tf (foldl propertySchemas (propertySchemas sch e) (take (Suc i) es))) False
         = Returns (rest ! i)"
    by simp_all
  have "TerraformToPulumiName ext ((e # es) ! i)
          (tf (foldl propertySchemas sch (take (Suc i) (e # es)))) False
        = Returns (names ! i)" if "i < length (e # es)" for i
  proof (cases i)
    case 0
    with first names show ?thesis by simp
  next
    case (Suc k)
    with that ih(3) [of k] names show ?thesis by simp
  qed
  with ih(1,2) names show ?case by simp
qed

lemma resource_reference_rendering:
  assumes "NewInterpolatedVariable ext name = Inr (ResourceVariable v)"
    and "\<not> rv_Multi v"
    and "resource_at g (ResourceId ext v) = Some r"
    and "resourceSchemas r (rv_Type v) = Returns sch"
    and "walkElements ext sch (strings_Split (rv_Field v) CHR ''.'') = Returns (names, final)"
  shows "walkNode ext g (VariableAccess name)
         = Returns (resName (rv_Type v) (rv_Name v) @ ''.'' @ strings_Join names ''.'',
                    astType (foldl propertySchemas sch (strings_Split (rv_Field v) CHR ''.'')),
                    None)"
  using assms walkElements_returns [OF assms(5)]
  by (simp add: walkVariableAccess_def)

lemma resource_reference_nil_dereference:
  assumes "NewInterpolatedVariable ext name = Inr (ResourceVariable v)"
    and "\<not> rv_Multi v"
    and "resource_at g (ResourceId ext v) = Some r"
    and "provider_info r = Some info"
    and "provider_P info = None \<or> map_of (provider_Resources info) (rv_Type v) = None"
  shows "walkNode ext g (VariableAccess name) = Panics NilDereference"
  using assms
  by (auto simp: walkVariableAccess_def resourceSchemas_def split: option.splits)

text \<open>
  C5 at a failing input. The provider metadata of \<^verbatim>\<open>aws_instance\<close> gives the field
  \<^verbatim>\<open>instance_type\<close> the explicit name \<^verbatim>\<open>size\<close>. The serializer, which translates
  keys with \<open>tsName\<close>, writes the property of the resource as \<^verbatim>\<open>size\<close>; a reference to
  the same property is rendered by \<open>walkVariableAccess\<close> through \<open>TerraformToPulumiName\<close>
  alone, which never sees the override, as \<^verbatim>\<open>aws_instance_web.instanceType\<close>. The walk
  itself, the binding name and the result type are as C5 says.
\<close>

theorem resource_reference_ignores_override:
  "walkNode example_extern example_graph (VariableAccess ''aws_instance.web.instance_type'')
     = Returns (''aws_instance_web.instanceType'', TypeString, None)
   \<and> resourceSchemas \<lparr>provider_info = Some example_provider\<rparr> ''aws_instance''
       = Returns example_schemas
   \<and> tsName example_extern ''instance_type''
        (tf (propertySchemas example_schemas ''instance_type''))
        (pulumi (propertySchemas example_schemas ''instance_type'')) False
       = Returns ''size''
   \<and> computeProperty example_extern example_graph
        (VMap [(''instance_type'', VString ''t2.micro'')]) '''' example_schemas
       = Returns (''{'' @ newline @ ''    size: \"t2.micro\",'' @ newline @ ''}'',
                  TypeMap, None)"
  by (simp add: example_extern_def example_graph_def example_provider_def
      example_schemas_def walkVariableAccess_def resourceSchemas_def propertySchemas_def
      walkElements_step_def to_upper_def
      astType_def resName_def strings_ContainsAny_def tsName_def computeHILProperty_def
      sortedKeys_def map_index_def map_step_def renderMap_def coerceProperty_def newline_def)

section \<open>Error results\<close>

lemma renderArithmetic_error:
  "renderArithmetic op w = Returns (s, t, Some e) \<Longrightarrow> s = '''' \<and> t = TypeInvalid"
  by (auto simp: renderArithmetic_def split: outcome.splits prod.splits if_splits)

lemma renderCall_error:
  "renderCall func w = Returns (s, t, Some e) \<Longrightarrow> s = '''' \<and> t = TypeInvalid"
  by (auto simp: renderCall_def split: outcome.splits prod.splits if_splits list.splits)

lemma renderConditional_error:
  "renderConditional a b c = Returns (s, t, Some e) \<Longrightarrow> s = '''' \<and> t = TypeInvalid"
  by (auto simp: renderConditional_def split: outcome.splits prod.splits if_splits)

lemma renderIndex_error:
  "renderIndex a b = Returns (s, t, Some e) \<Longrightarrow> s = '''' \<and> t = TypeInvalid"
  by (auto simp: renderIndex_def split: outcome.splits prod.splits if_splits)

lemma renderOutput_error:
  "renderOutput w = Returns (s, t, Some e) \<Longrightarrow> s = '''' \<and> t = TypeInvalid"
  by (auto simp: renderOutput_def split: outcome.splits prod.splits if_splits)

lemma walkLiteral_error:
  "walkLiteral ext v typex = Returns (s, t, Some e) \<Longrightarrow> s = '''' \<and> t = TypeInvalid"
  by (cases typex) (auto simp: walkLiteral_def)

lemma walkVariableAccess_error:
  "walkVariableAccess ext g name = Returns (s, t, Some e) \<Longrightarrow> s = '''' \<and> t = TypeInvalid"
  by (auto simp: walkVariableAccess_def Let_def
      split: sum.splits interpolated_variable.splits if_splits option.splits outcome.splits)

lemma walkNode_error:
  "walkNode ext g n = Returns (s, t, Some e) \<Longrightarrow> s = '''' \<and> t = TypeInvalid"
  by (cases n)
     (auto dest: renderArithmetic_error renderCall_error renderConditional_error
        renderIndex_error renderOutput_error walkLiteral_error walkVariableAccess_error)

lemma walkNodes_error:
  "walkNodes ext g ns = Returns (ss, ts, Some e) \<Longrightarrow> ss = [] \<and> ts = []"
  by (cases ns)
     (auto simp: walkNodes_step_def split: outcome.splits prod.splits if_splits)

lemma renderSlice_error:
  "renderSlice indent w = Returns (s, t, Some e) \<Longrightarrow> s = '''' \<and> t = TypeInvalid"
  by (auto simp: renderSlice_def split: outcome.splits prod.splits if_splits)

lemma renderMap_error:
  "renderMap indent w = Returns (s, t, Some e) \<Longrightarrow> s = '''' \<and> t = TypeInvalid"
  by (auto simp: renderMap_def split: outcome.splits prod.splits if_splits)

lemma computeMapProperty_error:
  "computeMapProperty ext g m indent sch = Returns (s, t, Some e)
   \<Longrightarrow> s = '''' \<and> t = TypeInvalid"
  by (auto dest: renderMap_error)

lemma computeProperty_error:
  "computeProperty ext g v indent sch = Returns (s, t, Some e)
   \<Longrightarrow> s = '''' \<and> t = TypeInvalid"
proof (induction "size v" arbitrary: v indent sch rule: less_induct)
  case less
  show ?case
  proof (cases v)
    case (VNode n)
    with less.prems show ?thesis
      by (auto simp: computeHILProperty_def dest: walkNode_error)
  next
    case (VSlice xs)
    show ?thesis
    proof (cases "IsMaxItemsOne ext (tf sch) (pulumi sch)")
      case False
      with less.prems VSlice show ?thesis
        by (auto dest: renderSlice_error)
    next
      case True
      show ?thesis
      proof (cases xs)
        case Nil
        with less.prems VSlice True show ?thesis by simp
      next
        case (Cons x rest)
        show ?thesis
        proof (cases "rest = []")
          case False
          with less.prems VSlice True Cons show ?thesis by simp
        next
          case single: True
          have "size x < size v"
            using VSlice Cons by simp
          moreover have "computeProperty ext g x indent (elemSchemas sch)
                         = Returns (s, t, Some e)"
            using less.prems VSlice True Cons single by simp
          ultimately show ?thesis
            using less.hyps by blast
        qed
      qed
    qed
  next
    case (VMap m)
    with less.prems show ?thesis
      by (auto dest: renderMap_error)
  qed (use less.prems in auto)
qed

text \<open>
  C9. Whenever the expression compiler (\<open>walkNode\<close>), the value serializer
  (\<open>computeProperty\<close>), the sequence serializer or the mapping serializer returns an
  error, the text it returns with it is empty and the type is \<open>TypeInvalid\<close>;
  \<open>walkNodes\<close> returns no texts and no types with an error.
\<close>

theorem error_results_uniform:
  "(walkNode ext g n = Returns (s, t, Some e) \<longrightarrow> s = '''' \<and> t = TypeInvalid)
   \<and> (walkNodes ext g ns = Returns (ss, ts, Some e) \<longrightarrow> ss = [] \<and> ts = [])
   \<and> (computeProperty ext g v indent sch = Returns (s, t, Some e)
        \<longrightarrow> s = '''' \<and> t = TypeInvalid)
   \<and> (computeSliceProperty ext g vs indent sch = Returns (s, t, Some e)
        \<longrightarrow> s = '''' \<and> t = TypeInvalid)
   \<and> (computeMapProperty ext g m indent sch = Returns (s, t, Some e)
        \<longrightarrow> s = '''' \<and> t = TypeInvalid)"
  using walkNode_error [of ext g n s t e] walkNodes_error [of ext g ns ss ts e]
    computeProperty_error [of ext g v indent sch s t e]
    computeProperty_error [of ext g "VSlice vs" indent sch s t e]
    computeMapProperty_error [of ext g m indent sch s t e]
  by simp

theorem error_results_uniform_witness:
  "walkNode example_extern example_graph (Index (VariableAccess ''var.missing'') OtherNode)
     = Returns ('''', TypeInvalid, Some (UnknownVariable ''missing''))
   \<and> computeProperty example_extern example_graph
        (VMap [(''a'', VNode (VariableAccess ''var.missing''))]) '''' no_schemas
     = Returns ('''', TypeInvalid, Some (UnknownVariable ''missing''))"
proof -
  have w: "walkNode example_extern example_graph
             (Index (VariableAccess ''var.missing'') OtherNode)
           = Returns ('''', TypeInvalid, Some (UnknownVariable ''missing''))"
    by (simp add: renderIndex_def walkVariableAccess_def example_extern_def
        example_graph_def)
  have c: "computeProperty example_extern example_graph
             (VMap [(''a'', VNode (VariableAccess ''var.missing''))]) '''' no_schemas
           = Returns ('''', TypeInvalid, Some (UnknownVariable ''missing''))"
    by (simp add: sortedKeys_def map_index_def map_step_def renderMap_def
        computeHILProperty_def walkVariableAccess_def example_extern_def example_graph_def
        tsName_def strings_ContainsAny_def propertySchemas_def no_schemas_def)
  show ?thesis
    using w c
      error_results_uniform [of example_extern example_graph
        "Index (VariableAccess ''var.missing'') OtherNode" "''''" TypeInvalid
        "UnknownVariable ''missing''" "[]" "[]" "[]"
        "VMap [(''a'', VNode (VariableAccess ''var.missing''))]" "''''" no_schemas
        "[]" "[]"]
    by simp
qed

section \<open>Determinism of the serializer\<close>

lemma sortedKeys_same:
  "distinct (map fst m) \<Longrightarrow> distinct (map fst m') \<Longrightarrow> set (map fst m) = set (map fst m')
   \<Longrightarrow> sortedKeys m = sortedKeys m'"
  unfolding sortedKeys_def
  by (rule sorted_distinct_set_unique) simp_all

lemma sliceLoop_same:
  "list_all2 (\<lambda>x y. \<forall>indent sch. computeProperty ext g x indent sch
                                   = computeProperty ext g y indent sch) xs ys
   \<Longrightarrow> sliceLoop ext g xs indent sch = sliceLoop ext g ys indent sch"
  by (induction xs ys rule: list_all2_induct) simp_all

lemma mapLoop_same:
  "\<forall>k \<in> set ks. \<forall>indent sch. computeProperty ext g (map_index m k) indent sch
                               = computeProperty ext g (map_index m' k) indent sch
   \<Longrightarrow> mapLoop ext g ks m indent sch = mapLoop ext g ks m' indent sch"
  by (induction ks) simp_all

lemma computeProperty_same:
  "same_value v v' \<Longrightarrow> computeProperty ext g v indent sch = computeProperty ext g v' indent sch"
proof (induction arbitrary: indent sch rule: same_value.induct)
  case (same_refl v)
  show ?case by simp
next
  case (same_slice xs ys)
  then have all: "list_all2 (\<lambda>x y. \<forall>indent sch. computeProperty ext g x indent sch
                                   = computeProperty ext g y indent sch) xs ys"
    by (simp add: list_all2_conv_all_nth)
  have len: "length xs = length ys"
    using all by (rule list_all2_lengthD)
  show ?case
  proof (cases "IsMaxItemsOne ext (tf sch) (pulumi sch)")
    case False
    then show ?thesis
      using sliceLoop_same [OF all] by simp
  next
    case True
    show ?thesis
    proof (cases xs)
      case Nil
      with len True show ?thesis by simp
    next
      case (Cons x xs')
      then obtain y ys' where ys: "ys = y # ys'" and len': "length xs' = length ys'"
        using len by (cases ys) auto
      have "computeProperty ext g x indent (elemSchemas sch)
            = computeProperty ext g y indent (elemSchemas sch)"
        using all Cons ys by simp
      then show ?thesis
        using True Cons ys len' by auto
    qed
  qed
next
  case (same_map m m')
  have keys: "sortedKeys m = sortedKeys m'"
    using same_map.hyps(1-3) by (rule sortedKeys_same)
  have "\<forall>k \<in> set (sortedKeys m). \<forall>indent sch.
          computeProperty ext g (map_index m k) indent sch
          = computeProperty ext g (map_index m' k) indent sch"
    using same_map.IH by (simp add: sortedKeys_def list_all_iff)
  then show ?case
    using mapLoop_same [of "sortedKeys m" ext g m m'] keys by simp
qed

lemma mapLoop_lines:
  "mapLoop ext g ks m indent sch = Returns (body, None)
   \<Longrightarrow> body = concat (map (property_line ext g m indent sch) ks)"
proof (induction ks arbitrary: body)
  case Nil
  then show ?case by simp
next
  case (Cons k ks)
  from Cons.prems obtain pv pt kn rest where
    first: "computeProperty ext g (map_index m k) (indent @ ''    '') (propertySchemas sch k)
            = Returns (pv, pt, None)"
    and key: "tsName ext k (tf (propertySchemas sch k)) (pulumi (propertySchemas sch k)) True
              = Returns kn"
    and others: "mapLoop ext g ks m indent sch = Returns (rest, None)"
    and body: "body = newline @ indent @ ''    '' @ kn
                 @ '': '' @ coerceProperty pv pt (astType (propertySchemas sch k))
                 @ '','' @ rest"
    by (auto simp: map_step_def split: outcome.splits prod.splits if_splits)
  have line: "property_line ext g m indent sch k
              = newline @ indent @ ''    '' @ kn
                  @ '': '' @ coerceProperty pv pt (astType (propertySchemas sch k)) @ '',''"
    using first key by (simp add: property_line_def)
  have "rest = concat (map (property_line ext g m indent sch) ks)"
    using Cons.IH others by simp
  then show ?case
    using line body by simp
qed

lemma computeMapProperty_lines:
  assumes "computeMapProperty ext g m indent sch = Returns (s, t, None)"
  shows "s = ''{'' @ concat (map (property_line ext g m indent sch) (sort (map fst m)))
               @ newline @ indent @ ''}''"
proof -
  from assms obtain body where
    loop: "mapLoop ext g (sortedKeys m) m indent sch = Returns (body, None)"
    and s: "s = ''{'' @ body @ newline @ indent @ ''}''"
    by (auto simp: renderMap_def split: outcome.splits prod.splits if_splits)
  show ?thesis
    using mapLoop_lines [OF loop] s by (simp add: sortedKeys_def)
qed

text \<open>
  C7. \<^verbatim>\<open>sortedKeys\<close> is modelled from the spec. The serializer is a function of the
  value, the indentation and the schema triple, so two runs on the same arguments
  return the same text. The only unordered container it reads is the Go map: for two
  listings of the same value that differ in the iteration order of their maps, at any
  depth, \<open>computeProperty\<close> returns the same outcome, text included. The keys a mapping
  is serialized in are the keys of the map in sorted order, whatever order the map
  lists them in: a mapping that serializes without error has as its text the lines of
  its keys in sorted order between the braces.
\<close>

theorem serialization_deterministic:
  "(same_value v v'
      \<longrightarrow> computeProperty ext g v indent sch = computeProperty ext g v' indent sch)
   \<and> sorted (sortedKeys m) \<and> set (sortedKeys m) = fst ` set m
   \<and> computeMapProperty ext g m indent sch
       = renderMap indent (mapLoop ext g (sortedKeys m) m indent sch)
   \<and> (computeMapProperty ext g m indent sch = Returns (s, t, None)
        \<longrightarrow> s = ''{'' @ concat (map (property_line ext g m indent sch) (sort (map fst m)))
                  @ newline @ indent @ ''}'')"
  using computeProperty_same [of v v' ext g indent sch]
    computeMapProperty_lines [of ext g m indent sch s t]
  by (simp add: sortedKeys_def)

theorem serialization_deterministic_witness:
  "same_value (VMap [(''b'', VBool True), (''a'', VString ''x'')])
              (VMap [(''a'', VString ''x''), (''b'', VBool True)])
   \<and> computeProperty example_extern example_graph
        (VMap [(''b'', VBool True), (''a'', VString ''x'')]) '''' no_schemas
     = computeProperty example_extern example_graph
        (VMap [(''a'', VString ''x''), (''b'', VBool True)]) '''' no_schemas
   \<and> computeMapProperty example_extern example_graph
        [(''b'', VBool True), (''a'', VString ''x'')] '''' no_schemas
     = Returns (''{'' @ newline @ ''    a: \"x\",'' @ newline @ ''    b: true,'' @ newline
                  @ ''}'', TypeMap, None)
   \<and> sortedKeys [(''b'', VBool True), (''a'', VString ''x'')] = [''a'', ''b'']"
proof -
  have same: "same_value (VMap [(''b'', VBool True), (''a'', VString ''x'')])
                         (VMap [(''a'', VString ''x''), (''b'', VBool True)])"
    by (rule same_map) (auto simp: map_index_def intro: same_refl)
  have run: "computeMapProperty example_extern example_graph
               [(''b'', VBool True), (''a'', VString ''x'')] '''' no_schemas
             = Returns (''{'' @ newline @ ''    a: \"x\",'' @ newline @ ''    b: true,''
                          @ newline @ ''}'', TypeMap, None)"
    by (simp add: sortedKeys_def map_index_def map_step_def renderMap_def
        propertySchemas_def no_schemas_def astType_def tsName_def strings_ContainsAny_def
        coerceProperty_def example_extern_def)
  show ?thesis
    using same run
      serialization_deterministic [of "VMap [(''b'', VBool True), (''a'', VString ''x'')]"
        "VMap [(''a'', VString ''x''), (''b'', VBool True)]" example_extern example_graph
        "''''" no_schemas "[(''b'', VBool True), (''a'', VString ''x'')]"
        "''{'' @ newline @ ''    a: \"x\",'' @ newline @ ''    b: true,'' @ newline @ ''}''"
        TypeMap]
    by (simp add: sortedKeys_def)
qed

section \<open>Statement emitter: single steps\<close>

lemma emitNode_success:
  "emitNode lang n st = (None, st')
   \<Longrightarrow> isLocalOrResource n \<and> done_nodes st' = insert n (done_nodes st)"
  by (cases n)
     (auto simp: emitNode_def markDone_def isLocalOrResource_def split: if_splits)

lemma emitNode_done:
  "done_nodes st \<subseteq> done_nodes (snd (emitNode lang n st))
   \<and> done_nodes (snd (emitNode lang n st)) \<subseteq> insert n (done_nodes st)"
  by (cases n) (auto simp: emitNode_def markDone_def)

lemma emitNode_traced_log:
  "isLocalOrResource n
   \<Longrightarrow> hook_log (snd (emitNode (traced lang) n st)) = hook_log st @ [hook_event n]"
  by (cases n)
     (auto simp: emitNode_def markDone_def traced_def logged_def hook_log_def
        hook_event_def isLocalOrResource_def)

lemma emitNode_traced_log_other:
  "\<not> isLocalOrResource n \<Longrightarrow> hook_log (snd (emitNode (traced lang) n st)) = hook_log st"
  by (cases n) (auto simp: emitNode_def isLocalOrResource_def)

lemma emitNode_untraced:
  "map_prod id untraced (emitNode (traced lang) n st) = emitNode lang n (untraced st)"
  by (cases n)
     (auto simp: emitNode_def markDone_def traced_def logged_def untraced_def)

lemma generateNode_Suc_success:
  assumes "generateNode (Suc fuel) G lang n st = Some (None, st')"
    and "n \<notin> done_nodes st"
  obtains st1 where "generateNodes fuel G lang (dependencies G n) st = Some (None, st1)"
    and "emitNode lang n st1 = (None, st')"
  using assms
  by (auto split: option.splits if_splits simp: prod_eq_iff)

lemma generateNodes_Cons_success:
  assumes "generateNodes fuel G lang (d # ds) st = Some (None, st')"
  obtains st1 where "generateNode fuel G lang d st = Some (None, st1)"
    and "generateNodes fuel G lang ds st1 = Some (None, st')"
  using assms
  by (auto split: option.splits if_splits simp: prod_eq_iff)

section \<open>Statement emitter: a traced run is the run\<close>

text \<open>
  Tracing changes nothing but the log: forgetting the log of a run of \<open>traced lang\<close>
  gives the run of \<open>lang\<close> from the same state, result and done-set included, and
  neither returns when the other does not.
\<close>

lemma generate_untraced:
  "map_option (map_prod id untraced) (generateNode fuel G (traced lang) n st)
   = generateNode fuel G lang n (untraced st)"
  "map_option (map_prod id untraced) (generateNodes fuel G (traced lang) ds st)
   = generateNodes fuel G lang ds (untraced st)"
proof -
  have step: "map_option (map_prod id untraced) (generateNodes fuel G (traced lang) ds st)
              = generateNodes fuel G lang ds (untraced st)"
    if node: "\<And>n st. map_option (map_prod id untraced) (generateNode fuel G (traced lang) n st)
                      = generateNode fuel G lang n (untraced st)"
    for fuel ds st
  proof (induction ds arbitrary: st)
    case Nil
    show ?case by simp
  next
    case (Cons d ds)
    show ?case
    proof (cases "generateNode fuel G (traced lang) d st")
      case None
      with node [of d st] show ?thesis by simp
    next
      case (Some r)
      with node [of d st]
      have plain: "generateNode fuel G lang d (untraced st) = Some (fst r, untraced (snd r))"
        by (cases r) simp
      show ?thesis
      proof (cases "fst r = None")
        case True
        with Some plain Cons.IH [of "snd r"] show ?thesis by simp
      next
        case False
        with Some plain show ?thesis by (cases r) (simp del: not_None_eq)
      qed
    qed
  qed
  have both: "(\<forall>n st. map_option (map_prod id untraced)
                         (generateNode fuel G (traced lang) n st)
                       = generateNode fuel G lang n (untraced st))"
  proof (induction fuel)
    case 0
    show ?case by simp
  next
    case (Suc fuel)
    show ?case
    proof (intro allI)
      fix n st
      show "map_option (map_prod id untraced) (generateNode (Suc fuel) G (traced lang) n st)
            = generateNode (Suc fuel) G lang n (untraced st)"
      proof (cases "n \<in> done_nodes st")
        case True
        then show ?thesis by (simp add: untraced_def)
      next
        case False
        then have nd: "n \<notin> done_nodes (untraced st)" by (simp add: untraced_def)
        have deps: "map_option (map_prod id untraced)
                      (generateNodes fuel G (traced lang) (dependencies G n) st)
                    = generateNodes fuel G lang (dependencies G n) (untraced st)"
          by (intro step) (rule Suc [rule_format])
        show ?thesis
        proof (cases "generateNodes fuel G (traced lang) (dependencies G n) st")
          case None
          with deps False nd show ?thesis by simp
        next
          case (Some r)
          with deps
          have plain: "generateNodes fuel G lang (dependencies G n) (untraced st)
                       = Some (fst r, untraced (snd r))"
            by (cases r) simp
          show ?thesis
          proof (cases "fst r = None")
            case True
            with Some plain False nd emitNode_untraced [of lang n "snd r"]
            show ?thesis by simp
          next
            case ne: False
            with Some plain False nd show ?thesis
              by (cases r) (simp del: not_None_eq)
          qed
        qed
      qed
    qed
  qed
  from both show "map_option (map_prod id untraced) (generateNode fuel G (traced lang) n st)
                  = generateNode fuel G lang n (untraced st)"
    by simp
  from both show "map_option (map_prod id untraced)
                    (generateNodes fuel G (traced lang) ds st)
                  = generateNodes fuel G lang ds (untraced st)"
    by (intro step) (rule both [rule_format])
qed

lemma generateReady_untraced:
  "map_option (map_prod id (map_prod untraced id))
     (generateReady fuel G (traced lang) ns todo st)
   = generateReady fuel G lang ns todo (untraced st)"
proof (induction ns arbitrary: todo st)
  case Nil
  show ?case by simp
next
  case (Cons n ns)
  show ?case
  proof (cases "dependencies G n = []")
    case False
    with Cons.IH show ?thesis by simp
  next
    case True
    show ?thesis
    proof (cases "generateNode fuel G (traced lang) n st")
      case None
      with generate_untraced(1) [of fuel G lang n st] True show ?thesis by simp
    next
      case (Some r)
      with generate_untraced(1) [of fuel G lang n st]
      have plain: "generateNode fuel G lang n (untraced st) = Some (fst r, untraced (snd r))"
        by (cases r) simp
      show ?thesis
      proof (cases "fst r = None")
        case ok: True
        with Some plain True Cons.IH [of todo "snd r"] show ?thesis by simp
      next
        case False
        with Some plain True show ?thesis by (simp del: not_None_eq)
      qed
    qed
  qed
qed


lemma generateGraphNodes_untraced:
  "map_option (map_prod id untraced) (generateGraphNodes fuel G (traced lang) (log, s))
   = generateGraphNodes fuel G lang s"
proof (cases "find (\<lambda>d. \<not> isVariableNode d) (providerDependencies G)")
  case (Some d)
  then show ?thesis by (simp add: generateGraphNodes_def untraced_def)
next
  case None
  define p where "p = generatePreamble lang G s"
  define v where "v = generateVariables lang (variables G) (snd p)"
  define st0 :: "(event list \<times> 'a) run" where
    "st0 = \<lparr>lang_state = (log @ [PreambleHook] @ [VariablesHook (variables G)], snd v),
            done_nodes = VariableNode ` set (variables G)\<rparr>"
  have tp: "generatePreamble (traced lang) G (log, s) = (fst p, log @ [PreambleHook], snd p)"
    by (simp add: traced_def logged_def p_def)
  have tv: "generateVariables (traced lang) (variables G) (log @ [PreambleHook], snd p)
            = (fst v, log @ [PreambleHook] @ [VariablesHook (variables G)], snd v)"
    by (simp add: traced_def logged_def v_def)
  have u0: "untraced st0 = \<lparr>lang_state = snd v,
                             done_nodes = VariableNode ` set (variables G)\<rparr>"
    by (simp add: untraced_def st0_def)
  show ?thesis
  proof (cases "fst p = None \<and> fst v = None")
    case False
    with None tp tv show ?thesis
      by (auto simp: generateGraphNodes_def Let_def p_def v_def untraced_def
          simp del: not_None_eq)
  next
    case True
    note ls = generateReady_untraced [of fuel G lang "map LocalNode (locals G)" "[]" st0]
    show ?thesis
    proof (cases "generateReady fuel G (traced lang) (map LocalNode (locals G)) [] st0")
      case nl: None
      with ls None True tp tv u0 show ?thesis
        by (simp add: generateGraphNodes_def Let_def p_def [symmetric] v_def [symmetric]
            st0_def)
    next
      case (Some l)
      with ls u0
      have pl: "generateReady fuel G lang (map LocalNode (locals G)) []
                  \<lparr>lang_state = snd v, done_nodes = VariableNode ` set (variables G)\<rparr>
                = Some (fst l, untraced (fst (snd l)), snd (snd l))"
        by (cases l) auto
      show ?thesis
      proof (cases "fst l = None")
        case False
        with Some pl None True tp tv show ?thesis
          by (simp add: generateGraphNodes_def Let_def p_def [symmetric] v_def [symmetric]
              st0_def del: not_None_eq)
      next
        case lok: True
        note rs = generateReady_untraced
          [of fuel G lang "map ResourceNode (resources G)" "snd (snd l)" "fst (snd l)"]
        show ?thesis
        proof (cases "generateReady fuel G (traced lang) (map ResourceNode (resources G))
                        (snd (snd l)) (fst (snd l))")
          case nr: None
          with rs Some pl lok None True tp tv show ?thesis
            by (simp add: generateGraphNodes_def Let_def p_def [symmetric]
                v_def [symmetric] st0_def)
        next
          case some_r: (Some r)
          with rs
          have pr: "generateReady fuel G lang (map ResourceNode (resources G))
                      (snd (snd l)) (untraced (fst (snd l)))
                    = Some (fst r, untraced (fst (snd r)), snd (snd r))"
            by (cases r) auto
          show ?thesis
          proof (cases "fst r = None")
            case False
            with some_r pr Some pl lok None True tp tv show ?thesis
              by (simp add: generateGraphNodes_def Let_def p_def [symmetric]
                  v_def [symmetric] st0_def del: not_None_eq)
          next
            case rok: True
            with some_r pr Some pl lok None True tp tv
              generate_untraced(2) [of fuel G lang "snd (snd r)" "fst (snd r)"]
            show ?thesis
              by (simp add: generateGraphNodes_def Let_def p_def [symmetric]
                  v_def [symmetric] st0_def)
          qed
        qed
      qed
    qed
  qed
qed

lemma generateGraphOutputs_untraced:
  "map_prod id untraced (generateGraphOutputs G (traced lang) st)
   = generateGraphOutputs G lang (untraced st)"
  by (cases "find (\<lambda>d. d \<notin> done_nodes st) (outputDependencies G)")
     (simp_all add: generateGraphOutputs_def Let_def untraced_def traced_def logged_def)

lemma generate_traced_run:
  "map_option (map_prod id untraced) (generate fuel G (traced lang) (log, s))
   = generate fuel G lang s"
proof (cases "generateGraphNodes fuel G (traced lang) (log, s)")
  case None
  with generateGraphNodes_untraced [of fuel G lang log s] show ?thesis
    by (simp add: generate_def)
next
  case (Some r)
  with generateGraphNodes_untraced [of fuel G lang log s]
  have plain: "generateGraphNodes fuel G lang s = Some (fst r, untraced (snd r))"
    by (cases r) auto
  show ?thesis
  proof (cases "fst r = None")
    case True
    with Some plain generateGraphOutputs_untraced [of G lang "snd r"] show ?thesis
      by (simp add: generate_def)
  next
    case False
    with Some plain show ?thesis
      by (cases r) (simp add: generate_def del: not_None_eq)
  qed
qed

section \<open>Statement emitter: what a successful run has done\<close>

text \<open>
  A call of \<open>generateNode\<close> that succeeds leaves its node done and removes nothing
  from the done-set; a node whose call is still open is not marked by the calls below
  it, so its hook is invoked once, after those of its dependencies.
\<close>

lemma generate_done_mono:
  "(\<forall>st'. generateNode fuel G lang n st = Some (None, st')
       \<longrightarrow> done_nodes st \<subseteq> done_nodes st' \<and> n \<in> done_nodes st')"
  "(\<forall>st'. generateNodes fuel G lang ds st = Some (None, st')
       \<longrightarrow> done_nodes st \<subseteq> done_nodes st' \<and> set ds \<subseteq> done_nodes st')"
proof (induction fuel G lang n st and fuel G lang ds st
    rule: generateNode_generateNodes.induct)
  case (1 G lang n st)
  show ?case by simp
next
  case (2 fuel G lang n st)
  show ?case
  proof (intro allI impI)
    fix st'
    assume run: "generateNode (Suc fuel) G lang n st = Some (None, st')"
    show "done_nodes st \<subseteq> done_nodes st' \<and> n \<in> done_nodes st'"
    proof (cases "n \<in> done_nodes st")
      case True
      with run show ?thesis by simp
    next
      case False
      from run False obtain st1 where
        deps: "generateNodes fuel G lang (dependencies G n) st = Some (None, st1)"
        and emit: "emitNode lang n st1 = (None, st')"
        by (rule generateNode_Suc_success)
      from "2.IH" False deps have "done_nodes st \<subseteq> done_nodes st1" by blast
      with emitNode_success [OF emit] show ?thesis by auto
    qed
  qed
next
  case (3 fuel G lang st)
  show ?case by simp
next
  case (4 fuel G lang d ds st)
  show ?case
  proof (intro allI impI)
    fix st'
    assume run: "generateNodes fuel G lang (d # ds) st = Some (None, st')"
    then obtain st1 where
      first: "generateNode fuel G lang d st = Some (None, st1)"
      and rest: "generateNodes fuel G lang ds st1 = Some (None, st')"
      by (rule generateNodes_Cons_success)
    from "4.IH"(1) first have a: "done_nodes st \<subseteq> done_nodes st1" "d \<in> done_nodes st1"
      by blast+
    from "4.IH"(2) [OF first] rest
    have b: "done_nodes st1 \<subseteq> done_nodes st'" "set ds \<subseteq> done_nodes st'"
      by auto
    from a b show "done_nodes st \<subseteq> done_nodes st' \<and> set (d # ds) \<subseteq> done_nodes st'"
      by auto
  qed
qed


lemmas generateNodes_done = generate_done_mono(2) [rule_format]

lemma pending_insert:
  "pending G S n \<Longrightarrow> d \<in> set (dependencies G n) \<Longrightarrow> pending G (insert n S) d"
  unfolding pending_def by blast

lemma generate_pending:
  "(\<forall>st' S. generateNode fuel G lang n st = Some (None, st')
       \<longrightarrow> pending G S n \<longrightarrow> S \<inter> done_nodes st = {} \<longrightarrow> S \<inter> done_nodes st' = {})"
  "(\<forall>st' S. generateNodes fuel G lang ds st = Some (None, st')
       \<longrightarrow> (\<forall>d \<in> set ds. pending G S d) \<longrightarrow> S \<inter> done_nodes st = {}
       \<longrightarrow> S \<inter> done_nodes st' = {})"
proof (induction fuel G lang n st and fuel G lang ds st
    rule: generateNode_generateNodes.induct)
  case (1 G lang n st)
  show ?case by simp
next
  case (2 fuel G lang n st)
  show ?case
  proof (intro allI impI)
    fix st' S
    assume run: "generateNode (Suc fuel) G lang n st = Some (None, st')"
      and pend: "pending G S n" and free: "S \<inter> done_nodes st = {}"
    show "S \<inter> done_nodes st' = {}"
    proof (cases "n \<in> done_nodes st")
      case True
      with run free show ?thesis by simp
    next
      case False
      from run False obtain st1 where
        deps: "generateNodes fuel G lang (dependencies G n) st = Some (None, st1)"
        and emit: "emitNode lang n st1 = (None, st')"
        by (rule generateNode_Suc_success)
      have "\<forall>d \<in> set (dependencies G n). pending G (insert n S) d"
        using pend by (blast intro: pending_insert)
      moreover have "insert n S \<inter> done_nodes st = {}"
        using free False by simp
      ultimately have open1: "insert n S \<inter> done_nodes st1 = {}"
        using "2.IH" [OF False, rule_format, OF deps] by blast
      have all_done: "set (dependencies G n) \<subseteq> done_nodes st1"
        using generateNodes_done [OF deps] by simp
      have "n \<notin> S"
      proof
        assume "n \<in> S"
        with pend obtain y where "y \<in> insert n S" "y \<in> set (dependencies G n)"
          unfolding pending_def by blast
        with all_done open1 show False by blast
      qed
      with open1 emitNode_success [OF emit] show ?thesis by auto
    qed
  qed
next
  case (3 fuel G lang st)
  show ?case by simp
next
  case (4 fuel G lang d ds st)
  show ?case
  proof (intro allI impI)
    fix st' S
    assume run: "generateNodes fuel G lang (d # ds) st = Some (None, st')"
      and pend: "\<forall>x \<in> set (d # ds). pending G S x"
      and free: "S \<inter> done_nodes st = {}"
    from run obtain st1 where
      first: "generateNode fuel G lang d st = Some (None, st1)"
      and rest: "generateNodes fuel G lang ds st1 = Some (None, st')"
      by (rule generateNodes_Cons_success)
    from "4.IH"(1) first pend free have "S \<inter> done_nodes st1 = {}"
      by simp
    with "4.IH"(2) [OF first] rest pend show "S \<inter> done_nodes st' = {}"
      by simp
  qed
qed

lemmas generateNodes_pending =
  generate_pending(2) [THEN spec, THEN spec, THEN mp, THEN mp, THEN mp]



lemma topological_append:
  "topological G D (ns @ [n])
   = (topological G D ns \<and> set (dependencies G n) \<subseteq> D \<union> set ns)"
  by (induction ns arbitrary: D) auto

lemma emitted_in_order_step:
  assumes inv: "emitted_in_order G st1 ns"
    and emit: "emitNode (traced lang) n st1 = (None, st')"
    and fresh: "n \<notin> done_nodes st1"
    and deps: "set (dependencies G n) \<subseteq> done_nodes st1"
  shows "emitted_in_order G st' (ns @ [n])"
proof -
  from emitNode_success [OF emit] have kind: "isLocalOrResource n"
    and marked: "done_nodes st' = insert n (done_nodes st1)"
    by simp_all
  from emitNode_traced_log [OF kind, of lang st1] emit
  have "hook_log st' = hook_log st1 @ [hook_event n]" by simp
  with inv kind marked fresh deps show ?thesis
    by (auto simp: emitted_in_order_def topological_append)
qed

lemma generate_in_order:
  "(\<forall>st' ns. gen = traced lang \<longrightarrow> generateNode fuel G gen n st = Some (None, st')
       \<longrightarrow> emitted_in_order G st ns
       \<longrightarrow> (\<exists>ns'. emitted_in_order G st' (ns @ ns')))"
  "(\<forall>st' ns. gen = traced lang \<longrightarrow> generateNodes fuel G gen ds st = Some (None, st')
       \<longrightarrow> emitted_in_order G st ns
       \<longrightarrow> (\<exists>ns'. emitted_in_order G st' (ns @ ns')))"
proof (induction fuel G gen n st and fuel G gen ds st
    rule: generateNode_generateNodes.induct)
  case (1 G gen n st)
  show ?case by simp
next
  case (2 fuel G gen n st)
  show ?case
  proof (intro allI impI)
    fix st' ns
    assume gen: "gen = traced lang"
      and run: "generateNode (Suc fuel) G gen n st = Some (None, st')"
      and inv: "emitted_in_order G st ns"
    show "\<exists>ns'. emitted_in_order G st' (ns @ ns')"
    proof (cases "n \<in> done_nodes st")
      case True
      with run inv have "emitted_in_order G st' (ns @ [])" by simp
      then show ?thesis ..
    next
      case False
      from run False obtain st1 where
        deps: "generateNodes fuel G gen (dependencies G n) st = Some (None, st1)"
        and emit: "emitNode gen n st1 = (None, st')"
        by (rule generateNode_Suc_success)
      from "2.IH" False gen deps inv obtain ns1 where
        inv1: "emitted_in_order G st1 (ns @ ns1)"
        by blast
      have all_done: "set (dependencies G n) \<subseteq> done_nodes st1"
        using generateNodes_done [OF deps] by simp
      have pend: "\<forall>d \<in> set (dependencies G n). pending G {n} d"
        unfolding pending_def by blast
      have free: "{n} \<inter> done_nodes st = {}"
        using False by simp
      have "{n} \<inter> done_nodes st1 = {}"
        using deps pend free by (rule generateNodes_pending)
      then have fresh: "n \<notin> done_nodes st1" by simp
      from emit gen have emit': "emitNode (traced lang) n st1 = (None, st')" by simp
      have "emitted_in_order G st' ((ns @ ns1) @ [n])"
        using inv1 emit' fresh all_done by (rule emitted_in_order_step)
      then have "emitted_in_order G st' (ns @ (ns1 @ [n]))" by simp
      then show ?thesis ..
    qed
  qed
next
  case (3 fuel G gen st)
  show ?case
  proof (intro allI impI)
    fix st' ns
    assume "generateNodes fuel G gen [] st = Some (None, st')"
      and "emitted_in_order G st ns"
    then have "emitted_in_order G st' (ns @ [])" by simp
    then show "\<exists>ns'. emitted_in_order G st' (ns @ ns')" ..
  qed
next
  case (4 fuel G gen d ds st)
  show ?case
  proof (intro allI impI)
    fix st' ns
    assume gen: "gen = traced lang"
      and run: "generateNodes fuel G gen (d # ds) st = Some (None, st')"
      and inv: "emitted_in_order G st ns"
    from run obtain st1 where
      first: "generateNode fuel G gen d st = Some (None, st1)"
      and rest: "generateNodes fuel G gen ds st1 = Some (None, st')"
      by (rule generateNodes_Cons_success)
    from "4.IH"(1) gen first inv obtain ns1 where
      inv1: "emitted_in_order G st1 (ns @ ns1)"
      by blast
    from "4.IH"(2) [OF first] gen rest inv1 obtain ns2 where
      "emitted_in_order G st' ((ns @ ns1) @ ns2)"
      by auto
    then have "emitted_in_order G st' (ns @ (ns1 @ ns2))" by simp
    then show "\<exists>ns'. emitted_in_order G st' (ns @ ns')" ..
  qed
qed

lemmas generateNode_done = generate_done_mono(1) [THEN spec, THEN mp]

lemmas generateNode_in_order =
  generate_in_order(1) [THEN spec, THEN spec, THEN mp, THEN mp, THEN mp, OF refl]

lemmas generateNodes_in_order =
  generate_in_order(2) [THEN spec, THEN spec, THEN mp, THEN mp, THEN mp, OF refl]

lemma generateReady_in_order:
  "generateReady fuel G (traced lang) ns todo st = Some (None, st', todo')
   \<Longrightarrow> emitted_in_order G st es
   \<Longrightarrow> \<exists>es'. emitted_in_order G st' (es @ es')
          \<and> set ns \<subseteq> done_nodes st' \<union> set todo'
          \<and> set todo \<subseteq> set todo'
          \<and> done_nodes st \<subseteq> done_nodes st'"
proof (induction ns arbitrary: todo st es)
  case Nil
  then have "emitted_in_order G st' (es @ []) \<and> st = st' \<and> todo = todo'" by simp
  then show ?case by (intro exI [of _ "[]"]) simp
next
  case (Cons n ns)
  show ?case
  proof (cases "dependencies G n = []")
    case True
    with Cons.prems(1) obtain st1 where
      first: "generateNode fuel G (traced lang) n st = Some (None, st1)"
      and rest: "generateReady fuel G (traced lang) ns todo st1 = Some (None, st', todo')"
      by (auto split: option.splits if_splits simp: prod_eq_iff)
    from generateNode_in_order [OF first Cons.prems(2)] obtain es1 where
      inv1: "emitted_in_order G st1 (es @ es1)" ..
    from Cons.IH [OF rest inv1] obtain es2 where
      inv2: "emitted_in_order G st' ((es @ es1) @ es2)"
      and sub: "set ns \<subseteq> done_nodes st' \<union> set todo'" "set todo \<subseteq> set todo'"
        "done_nodes st1 \<subseteq> done_nodes st'"
      by blast
    from inv2 have "emitted_in_order G st' (es @ (es1 @ es2))" by simp
    moreover have "set (n # ns) \<subseteq> done_nodes st' \<union> set todo'"
      using generateNode_done [OF first] sub by auto
    moreover have "done_nodes st \<subseteq> done_nodes st'"
      using generateNode_done [OF first] sub by auto
    ultimately show ?thesis
      using sub(2) by blast
  next
    case False
    with Cons.prems(1) have
      rest: "generateReady fuel G (traced lang) ns (todo @ [n]) st = Some (None, st', todo')"
      by simp
    from Cons.IH [OF rest Cons.prems(2)] show ?thesis
      by auto
  qed
qed

lemma generateGraphNodes_in_order:
  assumes "generateGraphNodes fuel G (traced lang) ([], s) = Some (None, st)"
  shows "\<exists>ns. emitted_in_order G st ns
          \<and> LocalNode ` set (locals G) \<union> ResourceNode ` set (resources G) \<subseteq> set ns"
proof -
  define st0 :: "(event list \<times> 'a) run" where
    "st0 = \<lparr>lang_state =
              snd (generateVariables (traced lang) (variables G)
                     (snd (generatePreamble (traced lang) G ([], s)))),
            done_nodes = VariableNode ` set (variables G)\<rparr>"
  from assms obtain st1 todo1 st2 todo2 where
    ls: "generateReady fuel G (traced lang) (map LocalNode (locals G)) [] st0
         = Some (None, st1, todo1)"
    and rs: "generateReady fuel G (traced lang) (map ResourceNode (resources G)) todo1 st1
             = Some (None, st2, todo2)"
    and ts: "generateNodes fuel G (traced lang) todo2 st2 = Some (None, st)"
    unfolding generateGraphNodes_def st0_def Let_def
    by (auto split: option.splits if_splits simp: prod_eq_iff)
  have inv0: "emitted_in_order G st0 []"
    by (simp add: emitted_in_order_def st0_def hook_log_def traced_def logged_def)
  from generateReady_in_order [OF ls inv0] obtain es1 where
    inv1: "emitted_in_order G st1 ([] @ es1)"
    and l1: "set (map LocalNode (locals G)) \<subseteq> done_nodes st1 \<union> set todo1"
    by blast
  from generateReady_in_order [OF rs inv1] obtain es2 where
    inv2: "emitted_in_order G st2 (([] @ es1) @ es2)"
    and r2: "set (map ResourceNode (resources G)) \<subseteq> done_nodes st2 \<union> set todo2"
    and t2: "set todo1 \<subseteq> set todo2" and d2: "done_nodes st1 \<subseteq> done_nodes st2"
    by blast
  from generateNodes_in_order [OF ts inv2] obtain es3 where
    inv3: "emitted_in_order G st ((([] @ es1) @ es2) @ es3)" ..
  have d3: "done_nodes st2 \<subseteq> done_nodes st" "set todo2 \<subseteq> done_nodes st"
    using generateNodes_done [OF ts] by simp_all
  have all: "LocalNode ` set (locals G) \<union> ResourceNode ` set (resources G)
             \<subseteq> done_nodes st"
    using l1 r2 t2 d2 d3 by (simp only: set_map) blast
  have "LocalNode ` set (locals G) \<union> ResourceNode ` set (resources G)
        \<subseteq> set ((([] @ es1) @ es2) @ es3)"
  proof
    fix n
    assume n: "n \<in> LocalNode ` set (locals G) \<union> ResourceNode ` set (resources G)"
    with all have "n \<in> done_nodes st" by blast
    then have "n \<in> VariableNode ` set (variables G) \<union> set ((([] @ es1) @ es2) @ es3)"
      using inv3 by (simp add: emitted_in_order_def)
    with n show "n \<in> set ((([] @ es1) @ es2) @ es3)" by auto
  qed
  with inv3 show ?thesis by blast
qed

lemma hook_events_distinct:
  "list_all isLocalOrResource ns \<Longrightarrow> distinct ns
   \<Longrightarrow> distinct (map hook_event ns) \<and> list_all isNodeHook (map hook_event ns)"
proof (induction ns)
  case Nil
  show ?case by simp
next
  case (Cons n ns)
  have inj: "\<And>m. m \<in> set ns \<Longrightarrow> isLocalOrResource m \<Longrightarrow> hook_event m = hook_event n
                 \<Longrightarrow> m = n"
    using Cons.prems(1)
    by (auto simp: isLocalOrResource_def hook_event_def split: node.splits)
  have "hook_event n \<notin> set (map hook_event ns)"
  proof
    assume "hook_event n \<in> set (map hook_event ns)"
    then obtain m where "m \<in> set ns" "hook_event m = hook_event n" by auto
    moreover from this Cons.prems(1) have "isLocalOrResource m"
      by (auto simp: list_all_iff)
    ultimately have "m = n" using inj by blast
    with \<open>m \<in> set ns\<close> Cons.prems(2) show False by simp
  qed
  moreover have "isNodeHook (hook_event n)"
    using Cons.prems(1)
    by (auto simp: isLocalOrResource_def hook_event_def isNodeHook_def split: node.splits)
  ultimately show ?case
    using Cons by auto
qed

lemma node_hooks_no_other:
  "list_all isNodeHook es
   \<Longrightarrow> PreambleHook \<notin> set es \<and> VariablesHook vs \<notin> set es \<and> OutputsHook os \<notin> set es"
  by (auto simp: list_all_iff isNodeHook_def)

section \<open>Statement emitter: every run\<close>





lemma generateReady_todo:
  "generateReady fuel G lang ns todo st = Some r
   \<Longrightarrow> set (snd (snd r)) \<subseteq> set todo \<union> set ns"
proof (induction ns arbitrary: todo st)
  case Nil
  then show ?case by auto
next
  case (Cons n ns)
  show ?case
  proof (cases "dependencies G n = []")
    case False
    with Cons.prems have "generateReady fuel G lang ns (todo @ [n]) st = Some r" by simp
    from Cons.IH [OF this] show ?thesis by auto
  next
    case True
    with Cons.prems obtain r1 where first: "generateNode fuel G lang n st = Some r1"
      by (auto split: option.splits)
    show ?thesis
    proof (cases "fst r1 = None")
      case ok: True
      with Cons.prems True first
      have "generateReady fuel G lang ns todo (snd r1) = Some r" by simp
      from Cons.IH [OF this] show ?thesis by auto
    next
      case False
      with Cons.prems True first have "r = (fst r1, snd r1, todo)"
        by (simp del: not_None_eq)
      then show ?thesis by auto
    qed
  qed
qed



section \<open>Statement emitter: the depth bound\<close>

text \<open>
  The depth bound of \<open>generateNode\<close> does not change a result: a run that returns under
  some bound returns the same under every larger one. When the nodes reachable from the
  listed locals and resources have no dependency cycle (some rank decreases along every
  dependency between them), \<open>generate\<close> returns under every bound above their ranks.
  On a cycle through a listed resource it returns under no bound: the Go recursion does
  not end.
\<close>

lemma generate_fuel_mono:
  "(\<forall>r. generateNode fuel G lang n st = Some r
       \<longrightarrow> generateNode (Suc fuel) G lang n st = Some r)"
  "(\<forall>r. generateNodes fuel G lang ds st = Some r
       \<longrightarrow> generateNodes (Suc fuel) G lang ds st = Some r)"
proof (induction fuel G lang n st and fuel G lang ds st
    rule: generateNode_generateNodes.induct)
  case (1 G lang n st)
  show ?case by simp
next
  case (2 fuel G lang n st)
  show ?case
  proof (intro allI impI)
    fix r
    assume run: "generateNode (Suc fuel) G lang n st = Some r"
    show "generateNode (Suc (Suc fuel)) G lang n st = Some r"
    proof (cases "n \<in> done_nodes st")
      case True
      with run show ?thesis by simp
    next
      case False
      with run obtain r1 where
        deps: "generateNodes fuel G lang (dependencies G n) st = Some r1"
        by (auto split: option.splits)
      with "2.IH" False have "generateNodes (Suc fuel) G lang (dependencies G n) st = Some r1"
        by simp
      with run deps False show ?thesis by simp
    qed
  qed
next
  case (3 fuel G lang st)
  show ?case by simp
next
  case (4 fuel G lang d ds st)
  show ?case
  proof (intro allI impI)
    fix r
    assume run: "generateNodes fuel G lang (d # ds) st = Some r"
    then obtain r1 where first: "generateNode fuel G lang d st = Some r1"
      by (auto split: option.splits)
    with "4.IH"(1) have first': "generateNode (Suc fuel) G lang d st = Some r1"
      by simp
    show "generateNodes (Suc fuel) G lang (d # ds) st = Some r"
    proof (cases "fst r1 = None")
      case True
      with run first have "generateNodes fuel G lang ds (snd r1) = Some r" by simp
      with "4.IH"(2) [OF first True] have "generateNodes (Suc fuel) G lang ds (snd r1) = Some r"
        by simp
      with first' True show ?thesis by simp
    next
      case False
      with run first first' show ?thesis by (simp del: not_None_eq)
    qed
  qed
qed

lemmas generateNode_fuel_mono = generate_fuel_mono(1) [THEN spec, THEN mp]

lemmas generateNodes_fuel_mono = generate_fuel_mono(2) [THEN spec, THEN mp]

lemma generateReady_fuel_mono:
  "generateReady fuel G lang ns todo st = Some r
   \<Longrightarrow> generateReady (Suc fuel) G lang ns todo st = Some r"
proof (induction ns arbitrary: todo st)
  case Nil
  then show ?case by simp
next
  case (Cons n ns)
  show ?case
  proof (cases "dependencies G n = []")
    case False
    with Cons show ?thesis by simp
  next
    case True
    with Cons.prems obtain r1 where first: "generateNode fuel G lang n st = Some r1"
      by (auto split: option.splits)
    note first' = generateNode_fuel_mono [OF first]
    show ?thesis
    proof (cases "fst r1 = None")
      case ok: True
      with Cons.prems True first
      have "generateReady fuel G lang ns todo (snd r1) = Some r" by simp
      from Cons.IH [OF this] True first' ok show ?thesis by simp
    next
      case False
      with Cons.prems True first first' show ?thesis by (simp del: not_None_eq)
    qed
  qed
qed

lemma generateGraphNodes_fuel_mono:
  assumes "generateGraphNodes fuel G lang s = Some r"
  shows "generateGraphNodes (Suc fuel) G lang s = Some r"
proof (cases "find (\<lambda>d. \<not> isVariableNode d) (providerDependencies G)")
  case (Some d)
  with assms show ?thesis by (simp add: generateGraphNodes_def)
next
  case None
  define p where "p = generatePreamble lang G s"
  define v where "v = generateVariables lang (variables G) (snd p)"
  define st0 :: "'a run" where
    "st0 = \<lparr>lang_state = snd v, done_nodes = VariableNode ` set (variables G)\<rparr>"
  show ?thesis
  proof (cases "fst p = None \<and> fst v = None")
    case False
    with assms None show ?thesis
      by (auto simp: generateGraphNodes_def Let_def p_def v_def simp del: not_None_eq)
  next
    case True
    with assms None obtain l where
      ls: "generateReady fuel G lang (map LocalNode (locals G)) [] st0 = Some l"
      by (auto simp: generateGraphNodes_def Let_def p_def v_def st0_def
          split: option.splits)
    note ls' = generateReady_fuel_mono [OF ls]
    show ?thesis
    proof (cases "fst l = None")
      case False
      with assms None True ls ls' show ?thesis
        by (simp add: generateGraphNodes_def Let_def p_def v_def st0_def
            del: not_None_eq)
    next
      case lok: True
      with assms None True ls obtain r2 where
        rs: "generateReady fuel G lang (map ResourceNode (resources G))
               (snd (snd l)) (fst (snd l)) = Some r2"
        by (auto simp: generateGraphNodes_def Let_def p_def v_def st0_def
            split: option.splits)
      note rs' = generateReady_fuel_mono [OF rs]
      show ?thesis
      proof (cases "fst r2 = None")
        case False
        with assms None True ls ls' lok rs rs' show ?thesis
          by (simp add: generateGraphNodes_def Let_def p_def v_def st0_def
              del: not_None_eq)
      next
        case rok: True
        with assms None True ls lok rs
        have "generateNodes fuel G lang (snd (snd r2)) (fst (snd r2)) = Some r"
          by (simp add: generateGraphNodes_def Let_def p_def v_def st0_def)
        from generateNodes_fuel_mono [OF this] None True ls' lok rs' rok
        show ?thesis
          by (simp add: generateGraphNodes_def Let_def p_def v_def st0_def)
      qed
    qed
  qed
qed

lemma generate_more_fuel:
  "generate fuel G lang s = Some r \<Longrightarrow> generate (Suc fuel) G lang s = Some r"
  by (auto simp: generate_def split: option.splits dest: generateGraphNodes_fuel_mono)

lemma generate_returns:
  assumes closed: "\<forall>n \<in> R. set (dependencies G n) \<subseteq> R"
    and acyclic: "\<forall>n \<in> R. \<forall>d \<in> set (dependencies G n). rank d < (rank n :: nat)"
  shows "(n \<in> R \<longrightarrow> rank n < fuel \<longrightarrow> (\<exists>r. generateNode fuel G lang n st = Some r))"
    "(set ds \<subseteq> R \<longrightarrow> (\<forall>d \<in> set ds. rank d < fuel)
        \<longrightarrow> (\<exists>r. generateNodes fuel G lang ds st = Some r))"
  using closed acyclic
proof (induction fuel G lang n st and fuel G lang ds st
    rule: generateNode_generateNodes.induct)
  case (1 G lang n st)
  show ?case by simp
next
  case (2 fuel G lang n st)
  show ?case
  proof (intro impI)
    assume n: "n \<in> R" and bound: "rank n < Suc fuel"
    show "\<exists>r. generateNode (Suc fuel) G lang n st = Some r"
    proof (cases "n \<in> done_nodes st")
      case True
      then show ?thesis by simp
    next
      case False
      have sub: "set (dependencies G n) \<subseteq> R"
        using "2.prems"(1) n by blast
      have "\<forall>d \<in> set (dependencies G n). rank d < fuel"
        using "2.prems"(2) n bound by fastforce
      with "2.IH" [OF False "2.prems"] sub obtain r1 where
        "generateNodes fuel G lang (dependencies G n) st = Some r1"
        by blast
      with False show ?thesis by simp
    qed
  qed
next
  case (3 fuel G lang st)
  show ?case by simp
next
  case (4 fuel G lang d ds st)
  show ?case
  proof (intro impI)
    assume sub: "set (d # ds) \<subseteq> R" and bound: "\<forall>x \<in> set (d # ds). rank x < fuel"
    with "4.IH"(1) [OF "4.prems"] obtain r1 where
      first: "generateNode fuel G lang d st = Some r1"
      by auto
    show "\<exists>r. generateNodes fuel G lang (d # ds) st = Some r"
    proof (cases "fst r1 = None")
      case True
      from "4.IH"(2) [OF first True "4.prems"] sub bound obtain r where
        "generateNodes fuel G lang ds (snd r1) = Some r"
        by auto
      with first True show ?thesis by simp
    next
      case False
      with first show ?thesis by (simp del: not_None_eq)
    qed
  qed
qed

lemma generateReady_returns:
  assumes closed: "\<forall>n \<in> R. set (dependencies G n) \<subseteq> R"
    and acyclic: "\<forall>n \<in> R. \<forall>d \<in> set (dependencies G n). rank d < (rank n :: nat)"
    and sub: "set ns \<subseteq> R"
    and bound: "\<forall>n \<in> R. rank n < fuel"
  shows "\<exists>r. generateReady fuel G lang ns todo st = Some r"
  using sub
proof (induction ns arbitrary: todo st)
  case Nil
  show ?case by simp
next
  case (Cons n ns)
  show ?case
  proof (cases "dependencies G n = []")
    case False
    with Cons show ?thesis by simp
  next
    case True
    from generate_returns(1) [OF closed acyclic, of n fuel lang st] Cons.prems bound
    obtain r1 where first: "generateNode fuel G lang n st = Some r1"
      by auto
    show ?thesis
    proof (cases "fst r1 = None")
      case ok: True
      from Cons.IH [of todo "snd r1"] Cons.prems obtain r where
        "generateReady fuel G lang ns todo (snd r1) = Some r"
        by auto
      with True first ok show ?thesis by (cases r) simp
    next
      case False
      with True first show ?thesis by (simp del: not_None_eq)
    qed
  qed
qed

lemma generateGraphNodes_returns:
  assumes closed: "\<forall>n \<in> R. set (dependencies G n) \<subseteq> R"
    and listed: "LocalNode ` set (locals G) \<union> ResourceNode ` set (resources G) \<subseteq> R"
    and acyclic: "\<forall>n \<in> R. \<forall>d \<in> set (dependencies G n). rank d < (rank n :: nat)"
    and bound: "\<forall>n \<in> R. rank n < fuel"
  shows "\<exists>r. generateGraphNodes fuel G lang s = Some r"
proof -
  have ready: "\<exists>r. generateReady fuel G lang ns todo st = Some r"
    if "set ns \<subseteq> R" for ns todo st
    using closed acyclic that bound by (rule generateReady_returns)
  have nodes: "\<exists>r. generateNodes fuel G lang ds st = Some r" if "set ds \<subseteq> R" for ds st
    using generate_returns(2) [OF closed acyclic, of ds fuel lang st] bound that by blast
  define p where "p = generatePreamble lang G s"
  define v where "v = generateVariables lang (variables G) (snd p)"
  define st0 :: "'a run" where
    "st0 = \<lparr>lang_state = snd v, done_nodes = VariableNode ` set (variables G)\<rparr>"
  have l_sub: "set (map LocalNode (locals G)) \<subseteq> R"
    using listed by auto
  have r_sub: "set (map ResourceNode (resources G)) \<subseteq> R"
    using listed by auto
  from ready [OF l_sub] obtain l where
    ls: "generateReady fuel G lang (map LocalNode (locals G)) [] st0 = Some l"
    by blast
  have todo1: "set (snd (snd l)) \<subseteq> R"
    using generateReady_todo [OF ls] l_sub by auto
  from ready [OF r_sub] obtain r2 where
    rs: "generateReady fuel G lang (map ResourceNode (resources G))
           (snd (snd l)) (fst (snd l)) = Some r2"
    by blast
  have todo2: "set (snd (snd r2)) \<subseteq> R"
    using generateReady_todo [OF rs] r_sub todo1 by auto
  from nodes [OF todo2] obtain r3 where
    ts: "generateNodes fuel G lang (snd (snd r2)) (fst (snd r2)) = Some r3"
    by blast
  show ?thesis
    using ls rs ts
    by (simp add: generateGraphNodes_def Let_def p_def v_def st0_def
        split: option.splits)
qed

lemma generate_terminates:
  assumes "\<forall>n \<in> R. set (dependencies G n) \<subseteq> R"
    and "LocalNode ` set (locals G) \<union> ResourceNode ` set (resources G) \<subseteq> R"
    and "\<forall>n \<in> R. \<forall>d \<in> set (dependencies G n). rank d < (rank n :: nat)"
    and "\<forall>n \<in> R. rank n < fuel"
  shows "\<exists>r. generate fuel G lang s = Some r"
  using generateGraphNodes_returns [OF assms, of lang s]
  by (auto simp: generate_def)



section \<open>Statement emitter: when no hook fails\<close>






section \<open>Statement emitter: the claims\<close>

text \<open>
  C1. The order of emission is read off a log that the hooks write themselves
  (\<open>traced\<close>): whenever \<open>generate\<close> succeeds with a generator, it succeeds with the
  traced generator and ends in the same state, and the hooks have been invoked in this
  order: the preamble, the variables, for each node of a sequence \<open>ns\<close> of local and
  resource nodes the hook of its kind on that node, and the outputs. No invocation occurs
  twice in the log, and \<open>ns\<close> has no duplicates, so each node has its hook invoked exactly
  once, however many dependency lists name it. Every local and every resource of the
  graph is in \<open>ns\<close>. The sequence is topological: every dependency of a node of \<open>ns\<close>
  is a variable of the graph, whose hook came before, or stands strictly before the node
  in \<open>ns\<close>. Every dependency of every output is a variable of the graph or in \<open>ns\<close>, so
  it was emitted before the outputs hook. Acyclicity is not a separate hypothesis: a run
  that succeeds has met no dependency cycle among the nodes it generates (\<open>topological\<close>
  says so), and without such a cycle the run returns (\<open>generate_terminates\<close>).
\<close>

theorem generate_topological_order:
  assumes "generate fuel G lang s = Some (None, st)"
  shows "\<exists>st' ns. generate fuel G (traced lang) ([], s) = Some (None, st')
          \<and> untraced st' = st
          \<and> hook_log st'
              = [PreambleHook, VariablesHook (variables G)] @ map hook_event ns
                  @ [OutputsHook (outputs G)]
          \<and> distinct (hook_log st')
          \<and> distinct ns
          \<and> list_all isLocalOrResource ns
          \<and> LocalNode ` set (locals G) \<union> ResourceNode ` set (resources G) \<subseteq> set ns
          \<and> topological G (VariableNode ` set (variables G)) ns
          \<and> set (outputDependencies G) \<subseteq> VariableNode ` set (variables G) \<union> set ns"
proof -
  from assms generate_traced_run [of fuel G lang "[]" s] obtain st' where
    traced_run: "generate fuel G (traced lang) ([], s) = Some (None, st')"
    and same: "untraced st' = st"
    by (cases "generate fuel G (traced lang) ([], s)") auto
  from traced_run obtain st1 where
    nodes: "generateGraphNodes fuel G (traced lang) ([], s) = Some (None, st1)"
    and outs: "generateGraphOutputs G (traced lang) st1 = (None, st')"
    unfolding generate_def
    by (auto split: option.splits if_splits simp: prod_eq_iff)
  from generateGraphNodes_in_order [OF nodes] obtain ns where
    inv: "emitted_in_order G st1 ns"
    and all: "LocalNode ` set (locals G) \<union> ResourceNode ` set (resources G) \<subseteq> set ns"
    by blast
  from outs have sat: "find (\<lambda>d. d \<notin> done_nodes st1) (outputDependencies G) = None"
    and tr: "hook_log st' = hook_log st1 @ [OutputsHook (outputs G)]"
    unfolding generateGraphOutputs_def Let_def
    by (auto split: option.splits simp: hook_log_def traced_def logged_def)
  from sat have "set (outputDependencies G) \<subseteq> done_nodes st1"
    by (auto simp: find_None_iff)
  then have deps: "set (outputDependencies G) \<subseteq> VariableNode ` set (variables G) \<union> set ns"
    using inv by (simp add: emitted_in_order_def)
  have shape: "hook_log st'
               = [PreambleHook, VariablesHook (variables G)] @ map hook_event ns
                   @ [OutputsHook (outputs G)]"
    using inv tr by (simp add: emitted_in_order_def)
  have props: "distinct ns" "list_all isLocalOrResource ns"
    "topological G (VariableNode ` set (variables G)) ns"
    using inv by (simp_all add: emitted_in_order_def)
  have "distinct (hook_log st')"
    using hook_events_distinct [OF props(2) props(1)]
      node_hooks_no_other [of "map hook_event ns"] shape
    by auto
  with traced_run same shape props all deps show ?thesis by blast
qed

theorem generate_topological_order_witness:
  "generate (Suc (Suc 0)) example_graph example_generator []
     = Some (None,
             \<lparr>lang_state = [''import'', ''config'', ''local'', ''resource'', ''resource'',
                            ''export''],
              done_nodes = {ResourceNode 1, ResourceNode 0, LocalNode 0, VariableNode 0}\<rparr>)
   \<and> (\<exists>st' ns. generate (Suc (Suc 0)) example_graph (traced example_generator) ([], [])
                  = Some (None, st')
          \<and> untraced st'
              = \<lparr>lang_state = [''import'', ''config'', ''local'', ''resource'', ''resource'',
                               ''export''],
                 done_nodes = {ResourceNode 1, ResourceNode 0, LocalNode 0, VariableNode 0}\<rparr>
          \<and> hook_log st'
              = [PreambleHook, VariablesHook (variables example_graph)] @ map hook_event ns
                  @ [OutputsHook (outputs example_graph)]
          \<and> distinct (hook_log st')
          \<and> distinct ns
          \<and> list_all isLocalOrResource ns
          \<and> LocalNode ` set (locals example_graph)
                \<union> ResourceNode ` set (resources example_graph) \<subseteq> set ns
          \<and> topological example_graph (VariableNode ` set (variables example_graph)) ns
          \<and> set (outputDependencies example_graph)
                \<subseteq> VariableNode ` set (variables example_graph) \<union> set ns)
   \<and> generate (Suc (Suc 0)) example_graph (traced example_generator) ([], [])
     = Some (None,
             \<lparr>lang_state =
                ([PreambleHook, VariablesHook [0], LocalHook 0, ResourceHook 0, ResourceHook 1,
                  OutputsHook [0]],
                 [''import'', ''config'', ''local'', ''resource'', ''resource'', ''export'']),
              done_nodes = {ResourceNode 1, ResourceNode 0, LocalNode 0, VariableNode 0}\<rparr>)"
proof -
  have run: "generate (Suc (Suc 0)) example_graph example_generator []
     = Some (None,
             \<lparr>lang_state = [''import'', ''config'', ''local'', ''resource'', ''resource'',
                            ''export''],
              done_nodes = {ResourceNode 1, ResourceNode 0, LocalNode 0, VariableNode 0}\<rparr>)"
    by (simp add: generate_def generateGraphNodes_def generateGraphOutputs_def
        providerDependencies_def outputDependencies_def isVariableNode_def emitNode_def
        markDone_def example_graph_def example_generator_def Let_def)
  have traced_run:
    "generate (Suc (Suc 0)) example_graph (traced example_generator) ([], [])
     = Some (None,
             \<lparr>lang_state =
                ([PreambleHook, VariablesHook [0], LocalHook 0, ResourceHook 0, ResourceHook 1,
                  OutputsHook [0]],
                 [''import'', ''config'', ''local'', ''resource'', ''resource'', ''export'']),
              done_nodes = {ResourceNode 1, ResourceNode 0, LocalNode 0, VariableNode 0}\<rparr>)"
    by (simp add: generate_def generateGraphNodes_def generateGraphOutputs_def
        providerDependencies_def outputDependencies_def isVariableNode_def emitNode_def
        markDone_def example_graph_def example_generator_def traced_def logged_def Let_def)
  show ?thesis
    by (rule conjI [OF run conjI [OF generate_topological_order [OF run] traced_run]])
qed




end
